(* ===== verification/Prelude.thy ===== *)
theory Prelude
  imports "HOL-Library.Word" "HOL-Library.Monad_Syntax"
begin

text \<open>
  Shared vocabulary of the development: bytes, byte-addressed memories, and the
  little-endian view of integers that the C++ sources obtain by casting pointers.
  Every registered buffer (local or on a memory node) is a \<open>mem\<close>; structs that
  never travel over the wire are records of the theories that use them.
\<close>

unbundle bit_operations_syntax

type_synonym byte = "8 word"
type_synonym addr = "64 word"
type_synonym mem = "addr \<Rightarrow> byte"

named_theorems mem_simps \<open>reading memory after a write\<close>
named_theorems region_intros \<open>disjointness and inclusion of address ranges\<close>

lemma unat_bound: "unat (w :: 'a::len word) < 2 ^ LENGTH('a)"
  by (rule unsigned_less)

lemma unat_succ:
  assumes "w \<noteq> - 1"
  shows "unat (w + 1) = Suc (unat (w :: 'a::len word))"
proof -
  have "1 + w \<noteq> 0" using assms by (simp add: add_eq_0_iff)
  then show ?thesis using unatSuc [of w] by (simp add: add.commute)
qed

text \<open>
  C arrays are lists: \<open>nth_opt\<close> reads an element, with \<^const>\<open>None\<close> out of range, and
  \<open>fill\<close> is a loop that sets the first \<open>n\<close> elements.
\<close>

definition nth_opt :: "'a list \<Rightarrow> nat \<Rightarrow> 'a option" where
  "nth_opt xs i = (if i < length xs then Some (xs ! i) else None)"

definition fill :: "nat \<Rightarrow> (nat \<Rightarrow> 'a) \<Rightarrow> 'a list \<Rightarrow> 'a list" where
  "fill n f xs = map f [0..<n] @ drop n xs"

lemma nth_opt_Some [simp]: "i < length xs \<Longrightarrow> nth_opt xs i = Some (xs ! i)"
  by (simp add: nth_opt_def)

lemma nth_opt_eq_Some: "nth_opt xs i = Some x \<longleftrightarrow> i < length xs \<and> xs ! i = x"
  by (simp add: nth_opt_def)

lemma nth_fill [simp]: "i < n \<Longrightarrow> fill n f xs ! i = f i"
  by (simp add: fill_def nth_append)

lemma length_fill: "n \<le> length xs \<Longrightarrow> length (fill n f xs) = length xs"
  by (simp add: fill_def)

text \<open>A loop that collects the results of a fallible body.\<close>

fun map_opt :: "('a \<Rightarrow> 'b option) \<Rightarrow> 'a list \<Rightarrow> 'b list option" where
  "map_opt f [] = Some []"
| "map_opt f (x # xs) = do { y \<leftarrow> f x; ys \<leftarrow> map_opt f xs; Some (y # ys) }"

lemma map_opt_eq_Some:
  "map_opt f xs = Some ys \<longleftrightarrow> list_all2 (\<lambda>x y. f x = Some y) xs ys"
proof (induction xs arbitrary: ys)
  case (Cons x xs)
  show ?case
    by (cases "f x"; cases "map_opt f xs"; cases ys) (auto simp flip: Cons.IH)
qed auto

lemma map_opt_total:
  "(\<And>x. x \<in> set xs \<Longrightarrow> f x = Some (g x)) \<Longrightarrow> map_opt f xs = Some (map g xs)"
  by (induction xs) simp_all

lemma map_opt_append:
  "map_opt f (xs @ ys) = do { a \<leftarrow> map_opt f xs; b \<leftarrow> map_opt f ys; Some (a @ b) }"
  by (induction xs) (auto split: bind_splits)

text \<open>A node number in the low byte of an address whose low byte is free.\<close>

lemma tag_address:
  fixes a :: "64 word" and s :: "8 word"
  assumes "a AND 0xFF = 0"
  shows "push_bit 8 (drop_bit 8 (a OR ucast s)) = a" "ucast ((a OR ucast s) AND 0xFF) = s"
proof -
  have mask: "(0xFF :: 64 word) = mask 8" by (simp add: mask_eq_exp_minus_1)
  have low: "\<not> bit a i" if "i < 8" for i
    using arg_cong [OF assms, of "\<lambda>x. bit x i"] that by (simp add: mask bit_simps)
  show "push_bit 8 (drop_bit 8 (a OR ucast s)) = a"
  proof (rule bit_word_eqI)
    fix n assume "n < LENGTH(64)"
    then show "bit (push_bit 8 (drop_bit 8 (a OR ucast s))) n = bit a n"
      using low [of n] by (cases "n < 8") (auto simp: bit_simps dest: bit_imp_le_length)
  qed
  show "ucast ((a OR ucast s) AND 0xFF) = s"
  proof (rule bit_word_eqI)
    fix n assume "n < LENGTH(8)"
    then show "bit (ucast ((a OR ucast s) AND 0xFF) :: 8 word) n = bit s n"
      using low [of n] by (auto simp: bit_simps mask)
  qed
qed

section \<open>Address ranges\<close>

definition region :: "addr \<Rightarrow> nat \<Rightarrow> addr set" where
  "region a n = (\<lambda>i. a + of_nat i) ` {..<n}"

lemma region_0 [simp]: "region a 0 = {}"
  by (simp add: region_def)

lemma region_Suc: "region a (Suc n) = insert a (region (a + 1) n)"
proof -
  have "{..<Suc n} = insert 0 (Suc ` {..<n})"
    by (auto simp: lessThan_Suc_eq_insert_0)
  then show ?thesis
    by (simp add: region_def image_image algebra_simps)
qed

lemma region_memI [region_intros]: "i < n \<Longrightarrow> a + of_nat i \<in> region a n"
  by (auto simp: region_def)

lemma region_start [simp]: "a \<in> region a n \<longleftrightarrow> 0 < n"
proof
  show "a \<in> region a n \<Longrightarrow> 0 < n" by (cases n) simp_all
qed (use region_memI [of 0 n a] in simp)

lemma region_mono: "n \<le> m \<Longrightarrow> region a n \<subseteq> region a m"
  by (auto simp: region_def)

lemma region_offset:
  assumes "k + n \<le> m"
  shows "region (a + of_nat k) n \<subseteq> region a m"
proof
  fix x assume "x \<in> region (a + of_nat k) n"
  then obtain i where "i < n" "x = a + of_nat (k + i)"
    by (auto simp: region_def algebra_simps)
  then show "x \<in> region a m" using assms region_memI [of "k + i" m a] by simp
qed

lemma region_split: "region a (n + m) = region a n \<union> region (a + of_nat n) m"
proof -
  have "{..<n + m} = {..<n} \<union> (+) n ` {..<m}"
  proof (intro equalityI subsetI)
    fix x assume "x \<in> {..<n + m}"
    then show "x \<in> {..<n} \<union> (+) n ` {..<m}"
      by (cases "x < n") (auto intro!: image_eqI [where x = "x - n"])
  qed auto
  then show ?thesis
    by (simp add: region_def image_Un image_image algebra_simps)
qed

lemma region_unat:
  assumes "unat a + n \<le> 2 ^ 64"
  shows "x \<in> region a n \<longleftrightarrow> unat a \<le> unat x \<and> unat x < unat a + n"
proof
  assume "x \<in> region a n"
  then obtain i where i: "i < n" "x = a + of_nat i" by (auto simp: region_def)
  have "unat a + i < 2 ^ 64" using assms i by simp
  then have "unat x = unat a + i"
    using i by (simp add: unat_word_ariths unsigned_of_nat take_bit_eq_mod)
  then show "unat a \<le> unat x \<and> unat x < unat a + n" using i by simp
next
  assume h: "unat a \<le> unat x \<and> unat x < unat a + n"
  then have "x = a + of_nat (unat x - unat a)"
    by (simp add: of_nat_diff)
  moreover have "unat x - unat a < n" using h by linarith
  ultimately show "x \<in> region a n" by (auto simp: region_def)
qed

lemma region_disjoint_unat:
  assumes "unat a + n \<le> unat b" "unat b + m \<le> 2 ^ 64"
  shows "region a n \<inter> region b m = {}"
  using assms by (auto simp: region_unat)

section \<open>Byte strings in memory\<close>

primrec load_bytes :: "nat \<Rightarrow> mem \<Rightarrow> addr \<Rightarrow> byte list" where
  "load_bytes 0 m a = []"
| "load_bytes (Suc n) m a = m a # load_bytes n m (a + 1)"

primrec store_bytes :: "addr \<Rightarrow> byte list \<Rightarrow> mem \<Rightarrow> mem" where
  "store_bytes a [] m = m"
| "store_bytes a (b # bs) m = (store_bytes (a + 1) bs m)(a := b)"

lemma length_load_bytes [simp]: "length (load_bytes n m a) = n"
  by (induction n arbitrary: a) simp_all

lemma nth_load_bytes [simp]: "i < n \<Longrightarrow> load_bytes n m a ! i = m (a + of_nat i)"
  by (induction n arbitrary: a i) (simp_all add: nth_Cons algebra_simps split: nat.split)

lemma load_bytes_eq_iff:
  "load_bytes n m a = load_bytes n m' b \<longleftrightarrow> (\<forall>i<n. m (a + of_nat i) = m' (b + of_nat i))"
  by (auto simp: list_eq_iff_nth_eq)

lemma load_bytes_cong:
  "(\<And>x. x \<in> region a n \<Longrightarrow> m x = m' x) \<Longrightarrow> load_bytes n m a = load_bytes n m' a"
  by (auto simp: load_bytes_eq_iff region_memI)

lemma store_bytes_other [mem_simps]:
  "x \<notin> region a (length bs) \<Longrightarrow> store_bytes a bs m x = m x"
  by (induction bs arbitrary: a m) (auto simp: region_Suc)

lemma store_bytes_at:
  assumes "length bs \<le> 2 ^ 64" "i < length bs"
  shows "store_bytes a bs m (a + of_nat i) = bs ! i"
  using assms
proof (induction bs arbitrary: a m i)
  case (Cons b bs)
  show ?case
  proof (cases i)
    case (Suc j)
    have "Suc j < 2 ^ 64" using Cons.prems Suc by simp
    then have "(of_nat (Suc j) :: addr) \<noteq> 0"
      by (simp only: word_of_nat_eq_0_iff) (auto dest: dvd_imp_le)
    then show ?thesis
      using Cons.IH [of j "a + 1" m] Cons.prems Suc by (simp add: algebra_simps)
  qed simp
qed simp

lemma load_store_bytes [mem_simps]:
  "length bs \<le> 2 ^ 64 \<Longrightarrow> n = length bs \<Longrightarrow> load_bytes n (store_bytes a bs m) a = bs"
  by (simp add: list_eq_iff_nth_eq store_bytes_at)

lemma load_bytes_other [mem_simps]:
  "region b n \<inter> region a (length bs) = {} \<Longrightarrow>
   load_bytes n (store_bytes a bs m) b = load_bytes n m b"
  by (rule load_bytes_cong) (auto intro: store_bytes_other)

lemma store_bytes_append:
  "store_bytes a (bs @ cs) m = store_bytes a bs (store_bytes (a + of_nat (length bs)) cs m)"
  by (induction bs arbitrary: a m) (simp_all add: algebra_simps)

section \<open>Little-endian integers\<close>

primrec load_le :: "nat \<Rightarrow> mem \<Rightarrow> addr \<Rightarrow> 'a::len word" where
  "load_le 0 m a = 0"
| "load_le (Suc n) m a = ucast (m a) OR push_bit 8 (load_le n m (a + 1))"

primrec le_bytes :: "nat \<Rightarrow> 'a::len word \<Rightarrow> byte list" where
  "le_bytes 0 w = []"
| "le_bytes (Suc n) w = ucast w # le_bytes n (drop_bit 8 w)"

lemma length_le_bytes [simp]: "length (le_bytes n w) = n"
  by (induction n arbitrary: w) simp_all

lemma bit_load_le:
  "bit (load_le n m a :: 'a::len word) i \<longleftrightarrow>
     i < LENGTH('a) \<and> i < 8 * n \<and> bit (m (a + of_nat (i div 8))) (i mod 8)"
proof (induction n arbitrary: a i)
  case (Suc n)
  show ?case
  proof (cases "i < 8")
    case True
    then show ?thesis by (auto simp: bit_simps Suc.IH)
  next
    case False
    then have "i div 8 = Suc ((i - 8) div 8)" "i mod 8 = (i - 8) mod 8"
      by (simp_all add: div_if mod_if)
    then show ?thesis
      using False by (auto simp: bit_simps Suc.IH algebra_simps dest: bit_imp_le_length)
  qed
qed simp

lemma bit_nth_le_bytes:
  "j < n \<Longrightarrow> bit (le_bytes n w ! j) i \<longleftrightarrow> i < 8 \<and> bit w (8 * j + i)"
proof (induction n arbitrary: w j)
  case (Suc n)
  show ?case
  proof (cases j)
    case 0 then show ?thesis by (auto simp: bit_simps)
  next
    case (Suc k)
    then show ?thesis using Suc.IH [of k] Suc.prems
      by (auto simp: bit_simps algebra_simps)
  qed
qed simp

lemma load_store_le [mem_simps]:
  assumes "n \<le> 2 ^ 61" "LENGTH('a) \<le> 8 * n"
  shows "load_le n (store_bytes a (le_bytes n w) m) a = (w :: 'a::len word)"
proof (rule bit_word_eqI)
  fix i assume i: "i < LENGTH('a)"
  then have "i div 8 < n" using assms by simp
  moreover have "n \<le> 2 ^ 64" using assms by simp
  ultimately have "store_bytes a (le_bytes n w) m (a + of_nat (i div 8)) = le_bytes n w ! (i div 8)"
    by (simp add: store_bytes_at)
  then show "bit (load_le n (store_bytes a (le_bytes n w) m) a :: 'a word) i = bit w i"
    using i assms \<open>i div 8 < n\<close> by (simp add: bit_load_le bit_nth_le_bytes)
qed

lemma load_le_cong:
  "(\<And>x. x \<in> region a n \<Longrightarrow> m x = m' x) \<Longrightarrow> load_le n m a = load_le n m' a"
  by (induction n arbitrary: a) (simp_all add: region_Suc)

lemma load_le_other [mem_simps]:
  "region b n \<inter> region a (length bs) = {} \<Longrightarrow>
   load_le n (store_bytes a bs m) b = load_le n m b"
  by (rule load_le_cong) (auto intro: store_bytes_other)

lemma le_bytes_load_le:
  assumes "8 * n \<le> LENGTH('a::len)"
  shows "le_bytes n (load_le n m a :: 'a word) = load_bytes n m a"
proof (rule nth_equalityI)
  fix j assume "j < length (le_bytes n (load_le n m a :: 'a word))"
  then have j: "j < n" by simp
  show "le_bytes n (load_le n m a :: 'a word) ! j = load_bytes n m a ! j"
  proof (rule bit_word_eqI)
    fix i :: nat assume "i < LENGTH(8)"
    then show "bit (le_bytes n (load_le n m a :: 'a word) ! j) i = bit (load_bytes n m a ! j) i"
      using j assms by (simp add: bit_nth_le_bytes bit_load_le)
  qed
qed simp

abbreviation load16 :: "mem \<Rightarrow> addr \<Rightarrow> 16 word" where "load16 \<equiv> load_le 2"
abbreviation load32 :: "mem \<Rightarrow> addr \<Rightarrow> 32 word" where "load32 \<equiv> load_le 4"
abbreviation load64 :: "mem \<Rightarrow> addr \<Rightarrow> 64 word" where "load64 \<equiv> load_le 8"
abbreviation store64 :: "addr \<Rightarrow> 64 word \<Rightarrow> mem \<Rightarrow> mem" where
  "store64 a w \<equiv> store_bytes a (le_bytes 8 w)"

end
