(* ===== verification/KvUtils.thy ===== *)
theory KvUtils
  imports Prelude
begin

text \<open>
  The structs and helpers of \<open>src/src/kv_utils.h\<close> and \<open>kv_utils.cc\<close>: the
  control messages exchanged over UDP with their byte-order conversion, the
  packed garbage-collection slot, the log header and tail found around every
  key-value block, and the rounding helpers of the allocators.
\<close>

section \<open>Enumerations and structs\<close>

datatype ConnType = IB | ROCE

datatype Role = CLIENT | SERVER

datatype KVLogOp = KV_OP_INSERT | KV_OP_UPDATE | KV_OP_DELETE | KV_OP_FINISH

primrec KVLogOp_code :: "KVLogOp \<Rightarrow> byte" where
  "KVLogOp_code KV_OP_INSERT = 1"
| "KVLogOp_code KV_OP_UPDATE = 2"
| "KVLogOp_code KV_OP_DELETE = 3"
| "KVLogOp_code KV_OP_FINISH = 4"

datatype KVMsgType = REQ_CONNECT | REQ_ALLOC | REQ_ALLOC_SUBTABLE | REP_CONNECT
  | REP_ALLOC | REP_ALLOC_SUBTABLE | REQ_REGISTER | REP_REGISTER
  | REQ_RECOVER | REP_RECOVER | REQ_HEARTBEAT | REP_HEAETBEAT

primrec KVMsgType_code :: "KVMsgType \<Rightarrow> 16 word" where
  "KVMsgType_code REQ_CONNECT = 0"
| "KVMsgType_code REQ_ALLOC = 1"
| "KVMsgType_code REQ_ALLOC_SUBTABLE = 2"
| "KVMsgType_code REP_CONNECT = 3"
| "KVMsgType_code REP_ALLOC = 4"
| "KVMsgType_code REP_ALLOC_SUBTABLE = 5"
| "KVMsgType_code REQ_REGISTER = 6"
| "KVMsgType_code REP_REGISTER = 7"
| "KVMsgType_code REQ_RECOVER = 8"
| "KVMsgType_code REP_RECOVER = 9"
| "KVMsgType_code REQ_HEARTBEAT = 10"
| "KVMsgType_code REP_HEAETBEAT = 11"

record QpInfo =
  qp_num :: "32 word"
  qp_lid :: "16 word"
  qp_port_num :: byte
  qp_gid :: "byte list"
  qp_gid_idx :: byte

record MrInfo =
  mr_addr :: "64 word"
  mr_rkey :: "32 word"

record ConnInfo =
  ci_qp_info :: QpInfo
  ci_gc_info :: MrInfo

text \<open>The \<open>union\<close> in \<open>KVMsg\<close>, with the member last written as the constructor.\<close>

datatype KVMsgBody = BodyConn ConnInfo | BodyMr MrInfo

record KVMsg =
  msg_type :: "16 word"
  msg_id :: "16 word"
  msg_body :: KVMsgBody

section \<open>Byte order\<close>

primrec of_le_bytes :: "byte list \<Rightarrow> 'a::len word" where
  "of_le_bytes [] = 0"
| "of_le_bytes (b # bs) = ucast b OR push_bit 8 (of_le_bytes bs)"

definition htons :: "16 word \<Rightarrow> 16 word" where
  "htons w = of_le_bytes (rev (le_bytes 2 w))"

definition htonl :: "32 word \<Rightarrow> 32 word" where
  "htonl w = of_le_bytes (rev (le_bytes 4 w))"

abbreviation "ntohs \<equiv> htons"
abbreviation "ntohl \<equiv> htonl"

definition htonll :: "64 word \<Rightarrow> 64 word" where
  "htonll val = push_bit 32 (ucast (htonl (ucast val))) + ucast (htonl (ucast (drop_bit 32 val)))"

definition ntohll :: "64 word \<Rightarrow> 64 word" where
  "ntohll val = push_bit 32 (ucast (ntohl (ucast val))) + ucast (ntohl (ucast (drop_bit 32 val)))"

definition serialize_qp_info :: "QpInfo \<Rightarrow> QpInfo" where
  "serialize_qp_info q = q\<lparr>qp_num := htonl (qp_num q), qp_lid := htons (qp_lid q)\<rparr>"

definition deserialize_qp_info :: "QpInfo \<Rightarrow> QpInfo" where
  "deserialize_qp_info q = q\<lparr>qp_num := ntohl (qp_num q), qp_lid := ntohs (qp_lid q)\<rparr>"

definition serialize_mr_info :: "MrInfo \<Rightarrow> MrInfo" where
  "serialize_mr_info r = r\<lparr>mr_addr := htonll (mr_addr r), mr_rkey := htonl (mr_rkey r)\<rparr>"

definition deserialize_mr_info :: "MrInfo \<Rightarrow> MrInfo" where
  "deserialize_mr_info r = r\<lparr>mr_addr := ntohll (mr_addr r), mr_rkey := ntohl (mr_rkey r)\<rparr>"

definition serialize_conn_info :: "ConnInfo \<Rightarrow> ConnInfo" where
  "serialize_conn_info c = c\<lparr>ci_qp_info := serialize_qp_info (ci_qp_info c),
     ci_gc_info := serialize_mr_info (ci_gc_info c)\<rparr>"

definition deserialize_conn_info :: "ConnInfo \<Rightarrow> ConnInfo" where
  "deserialize_conn_info c = c\<lparr>ci_qp_info := deserialize_qp_info (ci_qp_info c),
     ci_gc_info := deserialize_mr_info (ci_gc_info c)\<rparr>"

definition is_conn_type :: "16 word \<Rightarrow> bool" where
  "is_conn_type t \<longleftrightarrow> t \<in> {KVMsgType_code REQ_CONNECT, KVMsgType_code REP_CONNECT}"

definition is_mr_type :: "16 word \<Rightarrow> bool" where
  "is_mr_type t \<longleftrightarrow> t \<in> {KVMsgType_code REQ_ALLOC, KVMsgType_code REP_ALLOC,
     KVMsgType_code REQ_ALLOC_SUBTABLE, KVMsgType_code REP_ALLOC_SUBTABLE}"

text \<open>
  Converting a union member other than the one last written is undefined in
  C++; both switches return \<^const>\<open>None\<close> there.
\<close>

definition convert_body ::
  "(ConnInfo \<Rightarrow> ConnInfo) \<Rightarrow> (MrInfo \<Rightarrow> MrInfo) \<Rightarrow> 16 word \<Rightarrow> KVMsgBody \<Rightarrow> KVMsgBody option" where
  "convert_body fc fm t b =
     (if is_conn_type t then (case b of BodyConn c \<Rightarrow> Some (BodyConn (fc c)) | BodyMr _ \<Rightarrow> None)
      else if is_mr_type t then (case b of BodyMr r \<Rightarrow> Some (BodyMr (fm r)) | BodyConn _ \<Rightarrow> None)
      else Some b)"

definition serialize_kvmsg :: "KVMsg \<Rightarrow> KVMsg option" where
  "serialize_kvmsg m = do {
     b \<leftarrow> convert_body serialize_conn_info serialize_mr_info (msg_type m) (msg_body m);
     Some (m\<lparr>msg_type := htons (msg_type m), msg_id := htons (msg_id m), msg_body := b\<rparr>) }"

definition deserialize_kvmsg :: "KVMsg \<Rightarrow> KVMsg option" where
  "deserialize_kvmsg m = do {
     let m = m\<lparr>msg_type := ntohs (msg_type m), msg_id := ntohs (msg_id m)\<rparr>;
     b \<leftarrow> convert_body deserialize_conn_info deserialize_mr_info (msg_type m) (msg_body m);
     Some (m\<lparr>msg_body := b\<rparr>) }"

section \<open>Log entries\<close>

record KVLogHeader =
  lh_is_valid :: byte
  lh_key_length :: "16 word"
  lh_value_length :: "32 word"

record KVLogTail =
  lt_next_addr :: "byte list"
  lt_prev_addr :: "byte list"
  lt_old_value :: "64 word"
  lt_crc :: byte
  lt_op :: byte

record ClientLogMetaInfo =
  lm_pr_server_id :: byte
  lm_pr_log_head :: "64 word"
  lm_pr_log_tail :: "64 word"

record ClientMetaAddrInfo =
  ma_meta_info_type :: byte
  ma_server_id_list :: "byte list"
  ma_padding :: "byte list"
  ma_addr_list :: "64 word list"

text \<open>Sizes and offsets follow the x86-64 ABI: the structs carry padding.\<close>

definition ClientLogMetaInfo_size :: nat where "ClientLogMetaInfo_size = 24"
definition ClientMetaAddrInfo_size :: nat where "ClientMetaAddrInfo_size = 96"

definition ClientLogMetaInfo_bytes :: "ClientLogMetaInfo \<Rightarrow> byte list" where
  "ClientLogMetaInfo_bytes i = lm_pr_server_id i # replicate 7 0
     @ le_bytes 8 (lm_pr_log_head i) @ le_bytes 8 (lm_pr_log_tail i)"

definition load_ClientLogMetaInfo :: "mem \<Rightarrow> addr \<Rightarrow> ClientLogMetaInfo" where
  "load_ClientLogMetaInfo m a = \<lparr>lm_pr_server_id = m a, lm_pr_log_head = load64 m (a + 8),
     lm_pr_log_tail = load64 m (a + 16)\<rparr>"

definition ClientMetaAddrInfo_bytes :: "ClientMetaAddrInfo \<Rightarrow> byte list" where
  "ClientMetaAddrInfo_bytes i = ma_meta_info_type i # ma_server_id_list i @ ma_padding i
     @ concat (map (le_bytes 8) (ma_addr_list i))"

definition load_ClientMetaAddrInfo :: "mem \<Rightarrow> addr \<Rightarrow> ClientMetaAddrInfo" where
  "load_ClientMetaAddrInfo m a = \<lparr>ma_meta_info_type = m a,
     ma_server_id_list = load_bytes 10 m (a + 1), ma_padding = load_bytes 5 m (a + 11),
     ma_addr_list = map (\<lambda>i. load64 m (a + 16 + of_nat (8 * i))) [0..<10]\<rparr>"

definition KVLogHeader_size :: nat where "KVLogHeader_size = 8"
definition KVLogTail_size :: nat where "KVLogTail_size = 32"

definition load_KVLogHeader :: "mem \<Rightarrow> addr \<Rightarrow> KVLogHeader" where
  "load_KVLogHeader m a = \<lparr>lh_is_valid = m a, lh_key_length = load16 m (a + 2),
     lh_value_length = load32 m (a + 4)\<rparr>"

definition load_KVLogTail :: "mem \<Rightarrow> addr \<Rightarrow> KVLogTail" where
  "load_KVLogTail m a = \<lparr>lt_next_addr = load_bytes 6 m a, lt_prev_addr = load_bytes 6 m (a + 6),
     lt_old_value = load64 m (a + 16), lt_crc = m (a + 24), lt_op = m (a + 25)\<rparr>"

definition log_is_valid :: "KVLogHeader \<Rightarrow> bool" where
  "log_is_valid h \<longleftrightarrow> lh_is_valid h = 1"

definition log_is_committed :: "KVLogTail \<Rightarrow> bool" where
  "log_is_committed t \<longleftrightarrow> lt_old_value t \<noteq> 0"

definition log_is_insert :: "KVLogTail \<Rightarrow> bool" where
  "log_is_insert t \<longleftrightarrow> lt_op t = KVLogOp_code KV_OP_INSERT"

section \<open>Rounding\<close>

definition roundup_256 :: "64 word \<Rightarrow> 64 word" where
  "roundup_256 len = (if len mod 256 = 0 then len else (len div 256 + 1) * 256)"

text \<open>A zero alignment divides by zero.\<close>

definition round_up :: "64 word \<Rightarrow> 32 word \<Rightarrow> 64 word option" where
  "round_up a align = (if align = 0 then None
     else Some ((a + ucast align - 1) - ((a + ucast align - 1) mod ucast align)))"

section \<open>Garbage-collection slots\<close>

record DecodedClientGCSlot =
  gc_pr_addr :: "64 word"
  gc_bk_addr :: "64 word"
  gc_num_subblocks :: byte

abbreviation BLOCK_ADDR_BMASK :: "64 word" where "BLOCK_ADDR_BMASK \<equiv> 0x1FFFFF"
abbreviation BLOCK_OFF_BMASK :: "64 word" where "BLOCK_OFF_BMASK \<equiv> 0x3FFFF"
abbreviation SUBBLOCK_NUM_BMASK :: "64 word" where "SUBBLOCK_NUM_BMASK \<equiv> 0xF"

definition encode_gc_slot :: "DecodedClientGCSlot \<Rightarrow> 64 word" where
  "encode_gc_slot d =
     (let masked_block_off = drop_bit 8 (gc_pr_addr d) AND BLOCK_OFF_BMASK;
          masked_pr_addr = drop_bit 26 (gc_pr_addr d) AND BLOCK_ADDR_BMASK;
          masked_bk_addr = drop_bit 26 (gc_bk_addr d) AND BLOCK_ADDR_BMASK;
          masked_num_subblock = ucast (gc_num_subblocks d) AND SUBBLOCK_NUM_BMASK
      in push_bit 46 masked_block_off OR push_bit 25 masked_pr_addr
         OR push_bit 4 masked_bk_addr OR masked_num_subblock)"

definition decode_gc_slot :: "64 word \<Rightarrow> DecodedClientGCSlot" where
  "decode_gc_slot e =
     (let block_offset = drop_bit 46 e;
          pr_block_addr = drop_bit 25 e AND BLOCK_ADDR_BMASK;
          bk_block_addr = drop_bit 4 e AND BLOCK_ADDR_BMASK;
          num_subblocks = ucast (e AND SUBBLOCK_NUM_BMASK)
      in \<lparr>gc_pr_addr = push_bit 26 pr_block_addr OR push_bit 8 block_offset,
          gc_bk_addr = push_bit 26 bk_block_addr OR push_bit 8 block_offset,
          gc_num_subblocks = num_subblocks\<rparr>)"


section \<open>Properties\<close>

lemma bit_of_le_bytes:
  "bit (of_le_bytes bs :: 'a::len word) i \<longleftrightarrow>
     i < LENGTH('a) \<and> i < 8 * length bs \<and> bit (bs ! (i div 8)) (i mod 8)"
proof (induction bs arbitrary: i)
  case (Cons b bs)
  show ?case
  proof (cases "i < 8")
    case True
    then show ?thesis by (auto simp: bit_simps Cons.IH)
  next
    case False
    then have "i div 8 = Suc ((i - 8) div 8)" "i mod 8 = (i - 8) mod 8"
      by (simp_all add: div_if mod_if)
    then show ?thesis
      using False by (auto simp: bit_simps Cons.IH dest: bit_imp_le_length)
  qed
qed simp

lemma of_le_bytes_le_bytes:
  "LENGTH('a) \<le> 8 * n \<Longrightarrow> of_le_bytes (le_bytes n w) = (w :: 'a::len word)"
  by (rule bit_word_eqI) (simp add: bit_of_le_bytes bit_nth_le_bytes)

lemma le_bytes_of_le_bytes:
  assumes "8 * length bs \<le> LENGTH('a)"
  shows "le_bytes (length bs) (of_le_bytes bs :: 'a::len word) = bs"
proof (rule nth_equalityI)
  fix j assume "j < length (le_bytes (length bs) (of_le_bytes bs :: 'a word))"
  then have j: "j < length bs" by simp
  show "le_bytes (length bs) (of_le_bytes bs :: 'a word) ! j = bs ! j"
    by (rule bit_word_eqI) (use j assms in \<open>auto simp: bit_nth_le_bytes bit_of_le_bytes\<close>)
qed simp

lemma htons_htons [simp]: "htons (htons w) = w"
  using le_bytes_of_le_bytes [of "rev (le_bytes 2 w)", where 'a = 16]
  by (simp add: htons_def of_le_bytes_le_bytes)

lemma htonl_htonl [simp]: "htonl (htonl w) = w"
  using le_bytes_of_le_bytes [of "rev (le_bytes 4 w)", where 'a = 32]
  by (simp add: htonl_def of_le_bytes_le_bytes)

lemma halves_or:
  fixes x y :: "32 word"
  shows "push_bit 32 (ucast x) + ucast y = (push_bit 32 (ucast x) OR ucast y :: 64 word)"
  by (rule disjunctive_add) (auto simp: bit_simps dest: bit_imp_le_length)

lemma halves_low:
  "ucast (push_bit 32 (ucast x) + ucast y :: 64 word) = (y :: 32 word)" for x :: "32 word"
  unfolding halves_or by (rule bit_word_eqI) (simp add: bit_simps)

lemma halves_high:
  "ucast (drop_bit 32 (push_bit 32 (ucast x) + ucast y :: 64 word)) = (x :: 32 word)" for y :: "32 word"
  unfolding halves_or by (rule bit_word_eqI) (auto simp: bit_simps dest: bit_imp_le_length)

lemma halves_join:
  fixes w :: "64 word"
  shows "push_bit 32 (ucast (ucast (drop_bit 32 w) :: 32 word)) + ucast (ucast w :: 32 word) = w"
  unfolding halves_or by (rule bit_word_eqI) (auto simp: bit_simps)

lemma ntohll_htonll [simp]: "ntohll (htonll w) = w"
  by (simp add: ntohll_def htonll_def halves_low halves_high halves_join)

lemma htonll_ntohll [simp]: "htonll (ntohll w) = w"
  by (simp add: ntohll_def htonll_def halves_low halves_high halves_join)

lemma deserialize_conn_info_serialize [simp]:
  "deserialize_conn_info (serialize_conn_info c) = c"
  by (simp add: deserialize_conn_info_def serialize_conn_info_def deserialize_qp_info_def
      serialize_qp_info_def deserialize_mr_info_def serialize_mr_info_def)

lemma deserialize_mr_info_serialize [simp]:
  "deserialize_mr_info (serialize_mr_info r) = r"
  by (simp add: deserialize_mr_info_def serialize_mr_info_def)

lemma convert_body_inverse:
  assumes "convert_body fc fm t b = Some b'" "\<And>c. gc (fc c) = c" "\<And>r. gm (fm r) = r"
  shows "convert_body gc gm t b' = Some b"
  using assms by (auto simp: convert_body_def split: if_splits KVMsgBody.splits)

text \<open>
  \<open>serialize_kvmsg\<close> is undefined exactly when the type announces the other member
  of the union.
\<close>

lemma serialize_kvmsg_defined:
  "(\<exists>m'. serialize_kvmsg m = Some m') \<longleftrightarrow>
     (is_conn_type (msg_type m) \<longrightarrow> (\<exists>c. msg_body m = BodyConn c)) \<and>
     (is_mr_type (msg_type m) \<longrightarrow> (\<exists>r. msg_body m = BodyMr r))"
  by (cases "msg_body m")
     (auto simp: serialize_kvmsg_def convert_body_def is_conn_type_def is_mr_type_def)

lemma deserialize_serialize_kvmsg:
  assumes "serialize_kvmsg m = Some m'"
  shows "deserialize_kvmsg m' = Some m"
proof -
  obtain b where b: "convert_body serialize_conn_info serialize_mr_info (msg_type m) (msg_body m) = Some b"
    and m': "m' = m\<lparr>msg_type := htons (msg_type m), msg_id := htons (msg_id m), msg_body := b\<rparr>"
    using assms by (auto simp: serialize_kvmsg_def split: bind_splits)
  have "convert_body deserialize_conn_info deserialize_mr_info (msg_type m) b = Some (msg_body m)"
    by (rule convert_body_inverse [OF b]) simp_all
  then show ?thesis by (simp add: deserialize_kvmsg_def m')
qed

lemma roundup_256_unat:
  assumes "unat len + 255 < 2 ^ 64"
  shows "unat (roundup_256 len) = (unat len + 255) div 256 * 256"
proof -
  define q r where "q = unat len div 256" and "r = unat len mod 256"
  have len: "unat len = 256 * q + r" and r: "r < 256" by (simp_all add: q_def r_def)
  have mod0: "len mod 256 = 0 \<longleftrightarrow> r = 0"
    by (simp add: r_def unat_mod_distrib flip: unat_eq_0)
  show ?thesis
  proof (cases "r = 0")
    case True
    then show ?thesis using mod0 len by (simp add: roundup_256_def)
  next
    case False
    have "unat ((len div 256 + 1) * 256) = (q + 1) * 256"
      using assms len r False
      by (simp add: unat_word_ariths unat_div_distrib flip: q_def)
    moreover have "(unat len + 255) div 256 = q + 1" using len r False by simp
    ultimately show ?thesis using mod0 False by (simp add: roundup_256_def)
  qed
qed

lemma gc_masks:
  "BLOCK_ADDR_BMASK = mask 21" "BLOCK_OFF_BMASK = mask 18" "SUBBLOCK_NUM_BMASK = mask 4"
  by (simp_all add: mask_eq_exp_minus_1)

lemma bit_encode_gc_slot:
  "bit (encode_gc_slot d) i \<longleftrightarrow>
     (if i < 4 then bit (gc_num_subblocks d) i
      else if i < 25 then bit (gc_bk_addr d) (i + 22)
      else if i < 46 then bit (gc_pr_addr d) (i + 1)
      else i < 64 \<and> bit (gc_pr_addr d) (i - 38))"
proof -
  have "26 + (i - 4) = i + 22" if "4 \<le> i" using that by simp
  moreover have "26 + (i - 25) = i + 1" if "25 \<le> i" using that by simp
  moreover have "8 + (i - 46) = i - 38" if "46 \<le> i" using that by simp
  ultimately show ?thesis
    by (auto simp: encode_gc_slot_def Let_def gc_masks bit_simps not_less less_diff_conv2 add.commute)
qed

lemma bit_decode_gc_slot:
  "bit (gc_pr_addr (decode_gc_slot e)) i \<longleftrightarrow>
     8 \<le> i \<and> (if i < 26 then bit e (i + 38) else i < 47 \<and> bit e (i - 1))"
  "bit (gc_bk_addr (decode_gc_slot e)) i \<longleftrightarrow>
     8 \<le> i \<and> (if i < 26 then bit e (i + 38) else i < 47 \<and> bit e (i - 22))"
  "bit (gc_num_subblocks (decode_gc_slot e)) i \<longleftrightarrow> i < 4 \<and> bit e i"
proof -
  have *: "46 + (i - 8) = i + 38" if "8 \<le> i" using that by simp
  have **: "25 + (i - 26) = i - 1" "4 + (i - 26) = i - 22" if "26 \<le> i" using that by simp_all
  have ***: "\<not> bit e (i + 38)" if "26 \<le> i" using that by (auto dest: bit_imp_le_length)
  show "bit (gc_pr_addr (decode_gc_slot e)) i \<longleftrightarrow>
     8 \<le> i \<and> (if i < 26 then bit e (i + 38) else i < 47 \<and> bit e (i - 1))"
    using * ** *** by (cases "i < 8"; cases "i < 26")
      (auto simp: decode_gc_slot_def Let_def gc_masks bit_simps not_less add.commute)
  show "bit (gc_bk_addr (decode_gc_slot e)) i \<longleftrightarrow>
     8 \<le> i \<and> (if i < 26 then bit e (i + 38) else i < 47 \<and> bit e (i - 22))"
    using * ** *** by (cases "i < 8"; cases "i < 26")
      (auto simp: decode_gc_slot_def Let_def gc_masks bit_simps not_less add.commute)
  show "bit (gc_num_subblocks (decode_gc_slot e)) i \<longleftrightarrow> i < 4 \<and> bit e i"
    by (auto simp: decode_gc_slot_def Let_def gc_masks bit_simps)
qed

lemma encode_decode_gc_slot: "encode_gc_slot (decode_gc_slot e) = e"
  by (rule bit_word_eqI) (auto simp: bit_encode_gc_slot bit_decode_gc_slot)

lemma decode_encode_gc_slot:
  assumes pr: "\<And>i. bit (gc_pr_addr d) i \<Longrightarrow> 8 \<le> i \<and> i < 47"
    and bk: "\<And>i. bit (gc_bk_addr d) i \<Longrightarrow> 8 \<le> i \<and> i < 47"
    and off: "\<And>i. i < 26 \<Longrightarrow> bit (gc_bk_addr d) i = bit (gc_pr_addr d) i"
    and num: "\<And>i. bit (gc_num_subblocks d) i \<Longrightarrow> i < 4"
  shows "decode_gc_slot (encode_gc_slot d) = d"
proof (rule DecodedClientGCSlot.equality)
  show "gc_pr_addr (decode_gc_slot (encode_gc_slot d)) = gc_pr_addr d"
    by (rule bit_word_eqI) (auto simp: bit_encode_gc_slot bit_decode_gc_slot dest: pr)
  show "gc_bk_addr (decode_gc_slot (encode_gc_slot d)) = gc_bk_addr d"
    by (rule bit_word_eqI) (auto simp: bit_encode_gc_slot bit_decode_gc_slot off [symmetric] dest: bk)
  show "gc_num_subblocks (decode_gc_slot (encode_gc_slot d)) = gc_num_subblocks d"
    by (rule bit_word_eqI) (auto simp: bit_encode_gc_slot bit_decode_gc_slot dest: num)
qed simp

section \<open>Properties\<close>

lemma bit_of_take_bit:
  "take_bit m w = 0 \<Longrightarrow> take_bit n w = w \<Longrightarrow> bit w i \<Longrightarrow> m \<le> i \<and> i < n" for w :: "64 word"
  by (metis bit_take_bit_iff bit_0_eq bot_apply not_less bot_bool_def)

text \<open>
  C32. The 64-bit record of a freed subblock loses nothing: every
  record decodes to addresses that encode to it again, and a pair of 256-aligned
  addresses below 2^47 with the same 64 MB offset and up to 15 subblocks comes back
  unchanged.
\<close>

theorem gc_slot_round_trip:
  "encode_gc_slot (decode_gc_slot e) = e \<and>
   (take_bit 8 (gc_pr_addr d) = 0 \<and> take_bit 47 (gc_pr_addr d) = gc_pr_addr d \<and>
    take_bit 8 (gc_bk_addr d) = 0 \<and> take_bit 47 (gc_bk_addr d) = gc_bk_addr d \<and>
    take_bit 26 (gc_bk_addr d) = take_bit 26 (gc_pr_addr d) \<and> take_bit 4 (gc_num_subblocks d) = gc_num_subblocks d
    \<longrightarrow> decode_gc_slot (encode_gc_slot d) = d)"
proof (intro conjI impI, goal_cases)
  case 1
  show ?case by (rule encode_decode_gc_slot)
next
  case 2
  then have d: "take_bit 8 (gc_pr_addr d) = 0" "take_bit 47 (gc_pr_addr d) = gc_pr_addr d"
    "take_bit 8 (gc_bk_addr d) = 0" "take_bit 47 (gc_bk_addr d) = gc_bk_addr d"
    "take_bit 26 (gc_bk_addr d) = take_bit 26 (gc_pr_addr d)" "take_bit 4 (gc_num_subblocks d) = gc_num_subblocks d"
    by blast+
  show ?case
  proof (rule decode_encode_gc_slot)
    show "bit (gc_bk_addr d) i = bit (gc_pr_addr d) i" if "i < 26" for i
      using arg_cong [OF d(5), of "\<lambda>w. bit w i"] that by (simp add: bit_take_bit_iff)
    show "i < 4" if "bit (gc_num_subblocks d) i" for i
      using arg_cong [OF d(6), of "\<lambda>w. bit w i"] that by (simp add: bit_take_bit_iff)
  qed (use bit_of_take_bit d in blast)+
qed

theorem gc_slot_round_trip_witness:
  "decode_gc_slot (encode_gc_slot \<lparr>gc_pr_addr = 0x4000100, gc_bk_addr = 0x8000100, gc_num_subblocks = 3\<rparr>)
     = \<lparr>gc_pr_addr = 0x4000100, gc_bk_addr = 0x8000100, gc_num_subblocks = 3\<rparr>"
  using gc_slot_round_trip [where d = "\<lparr>gc_pr_addr = 0x4000100, gc_bk_addr = 0x8000100, gc_num_subblocks = 3\<rparr>"]
  by (simp add: take_bit_eq_mask mask_eq_exp_minus_1)

text \<open>
  C33. \<open>roundup_256\<close> gives the least multiple of 256 that is not below
  its argument, unless that would be 2^64: then it wraps around to 0.
\<close>

theorem roundup_256_bounds:
  "if unat len + 255 < 2 ^ 64
   then 256 dvd unat (roundup_256 len) \<and> unat len \<le> unat (roundup_256 len) \<and> unat (roundup_256 len) < unat len + 256
   else roundup_256 len = 0"
proof (cases "unat len + 255 < 2 ^ 64")
  case True
  note u = roundup_256_unat [OF True]
  have "(unat len + 255) div 256 * 256 \<le> unat len + 255" by simp
  moreover have "unat len \<le> (unat len + 255) div 256 * 256" by linarith
  ultimately show ?thesis using True unfolding u by (simp add: less_Suc_eq_le)
next
  case False
  then have d: "unat len div 256 = 2 ^ 56 - 1" using unat_bound [of len] by simp
  have "len mod 256 \<noteq> 0"
  proof
    assume "len mod 256 = 0"
    then have "unat (len mod 256) = 0" by simp
    then have "unat len mod 256 = 0" by (simp add: unat_mod)
    then show False using False d div_mult_mod_eq [of "unat len" 256] by simp
  qed
  moreover have "(len div 256 + 1) * 256 = 0"
  proof -
    have "len div 256 = of_nat (2 ^ 56 - 1)" using d by (simp add: word_arith_nat_div)
    then show ?thesis by simp
  qed
  ultimately show ?thesis using False by (simp add: roundup_256_def)
qed

end
