(* ===== verification/Hashtable.thy ===== *)
theory Hashtable
  imports KvUtils
begin

text \<open>
  The RACE hash index of \<open>src/src/hashtable.h\<close> and \<open>hashtable.cc\<close>: the packed
  slot and bucket as they lie in a memory node, the root with its directory of
  subtables, the key hash, the two bucket choices, the fingerprint, and the key
  comparison.
\<close>

section \<open>Constants\<close>

definition RACE_HASH_GLOBAL_DEPTH :: nat where "RACE_HASH_GLOBAL_DEPTH = 5"
definition RACE_HASH_INIT_LOCAL_DEPTH :: nat where "RACE_HASH_INIT_LOCAL_DEPTH = 5"
definition RACE_HASH_MAX_GLOBAL_DEPTH :: nat where "RACE_HASH_MAX_GLOBAL_DEPTH = 5"
definition RACE_HASH_SUBTABLE_NUM :: nat where
  "RACE_HASH_SUBTABLE_NUM = 2 ^ RACE_HASH_GLOBAL_DEPTH"
definition RACE_HASH_INIT_SUBTABLE_NUM :: nat where
  "RACE_HASH_INIT_SUBTABLE_NUM = 2 ^ RACE_HASH_INIT_LOCAL_DEPTH"
definition RACE_HASH_MAX_SUBTABLE_NUM :: nat where
  "RACE_HASH_MAX_SUBTABLE_NUM = 2 ^ RACE_HASH_MAX_GLOBAL_DEPTH"
definition RACE_HASH_ADDRESSABLE_BUCKET_NUM :: nat where
  "RACE_HASH_ADDRESSABLE_BUCKET_NUM = 34000"
definition RACE_HASH_SUBTABLE_BUCKET_NUM :: nat where
  "RACE_HASH_SUBTABLE_BUCKET_NUM = RACE_HASH_ADDRESSABLE_BUCKET_NUM * 3 div 2"
definition RACE_HASH_ASSOC_NUM :: nat where "RACE_HASH_ASSOC_NUM = 7"
definition SUBTABLE_USED_HASH_BIT_NUM :: nat where "SUBTABLE_USED_HASH_BIT_NUM = 32"
definition MAX_REP_NUM :: nat where "MAX_REP_NUM = 10"

definition RaceHashSlot_size :: nat where "RaceHashSlot_size = 8"
definition RaceHashBucket_size :: nat where "RaceHashBucket_size = 64"
definition RaceHashRoot_size :: nat where "RaceHashRoot_size = 128 + 32 * 10 * 8"

definition ROOT_RES_LEN :: nat where "ROOT_RES_LEN = RaceHashRoot_size"
definition SUBTABLE_LEN :: nat where
  "SUBTABLE_LEN = RACE_HASH_ADDRESSABLE_BUCKET_NUM * RaceHashBucket_size"
definition META_AREA_LEN :: nat where "META_AREA_LEN = 256 * 1024 * 1024"
definition GC_AREA_LEN :: nat where "GC_AREA_LEN = 0"
definition HASH_AREA_LEN :: nat where "HASH_AREA_LEN = 128 * 1024 * 1024"
definition CLIENT_META_LEN :: nat where "CLIENT_META_LEN = 1 * 1024 * 1024"
definition CLIENT_GC_LEN :: nat where "CLIENT_GC_LEN = 1 * 1024 * 1024"

lemmas race_consts = RACE_HASH_GLOBAL_DEPTH_def RACE_HASH_INIT_LOCAL_DEPTH_def
  RACE_HASH_MAX_GLOBAL_DEPTH_def RACE_HASH_SUBTABLE_NUM_def RACE_HASH_INIT_SUBTABLE_NUM_def
  RACE_HASH_MAX_SUBTABLE_NUM_def RACE_HASH_ADDRESSABLE_BUCKET_NUM_def
  RACE_HASH_SUBTABLE_BUCKET_NUM_def RACE_HASH_ASSOC_NUM_def SUBTABLE_USED_HASH_BIT_NUM_def
  MAX_REP_NUM_def RaceHashSlot_size_def RaceHashBucket_size_def RaceHashRoot_size_def
  ROOT_RES_LEN_def SUBTABLE_LEN_def META_AREA_LEN_def GC_AREA_LEN_def HASH_AREA_LEN_def
  CLIENT_META_LEN_def CLIENT_GC_LEN_def

section \<open>Slots, buckets and the root\<close>

record RaceHashSlot =
  slot_fp :: byte
  slot_kv_len :: byte
  slot_server_id :: byte
  slot_pointer :: "byte list"

definition slot_bytes :: "RaceHashSlot \<Rightarrow> byte list" where
  "slot_bytes s = slot_fp s # slot_kv_len s # slot_server_id s # slot_pointer s"

definition load_slot :: "mem \<Rightarrow> addr \<Rightarrow> RaceHashSlot" where
  "load_slot m a = \<lparr>slot_fp = m a, slot_kv_len = m (a + 1), slot_server_id = m (a + 2),
     slot_pointer = load_bytes 5 m (a + 3)\<rparr>"

definition store_slot :: "addr \<Rightarrow> RaceHashSlot \<Rightarrow> mem \<Rightarrow> mem" where
  "store_slot a s = store_bytes a (slot_bytes s)"

definition ConvertSlotToInt :: "mem \<Rightarrow> addr \<Rightarrow> 64 word" where
  "ConvertSlotToInt m slot = load64 m slot"

text \<open>Slot \<open>j\<close> of the bucket at \<open>b\<close>: two 32-bit words come first.\<close>

definition bucket_slot :: "addr \<Rightarrow> nat \<Rightarrow> addr" where
  "bucket_slot b j = b + 8 + of_nat (8 * j)"

definition bucket_local_depth :: "mem \<Rightarrow> addr \<Rightarrow> 32 word" where
  "bucket_local_depth m b = load32 m b"

definition bucket_prefix :: "mem \<Rightarrow> addr \<Rightarrow> 32 word" where
  "bucket_prefix m b = load32 m (b + 4)"

record RaceHashSubtableEntry =
  ste_lock :: byte
  ste_local_depth :: byte
  ste_server_id :: byte
  ste_pointer :: "byte list"

definition ste_bytes :: "RaceHashSubtableEntry \<Rightarrow> byte list" where
  "ste_bytes e = ste_lock e # ste_local_depth e # ste_server_id e # ste_pointer e"

definition load_ste :: "mem \<Rightarrow> addr \<Rightarrow> RaceHashSubtableEntry" where
  "load_ste m a = \<lparr>ste_lock = m a, ste_local_depth = m (a + 1), ste_server_id = m (a + 2),
     ste_pointer = load_bytes 5 m (a + 3)\<rparr>"

text \<open>Field offsets of \<open>RaceHashRoot\<close>.\<close>

definition root_global_depth :: "mem \<Rightarrow> addr \<Rightarrow> 64 word" where
  "root_global_depth m r = load64 m r"

definition root_subtable_hash_range :: "mem \<Rightarrow> addr \<Rightarrow> 64 word" where
  "root_subtable_hash_range m r = load64 m (r + 56)"

definition root_subtable_entry_addr :: "addr \<Rightarrow> nat \<Rightarrow> nat \<Rightarrow> addr" where
  "root_subtable_entry_addr r i j = r + 128 + of_nat ((i * MAX_REP_NUM + j) * 8)"

definition root_subtable_entry :: "mem \<Rightarrow> addr \<Rightarrow> nat \<Rightarrow> nat \<Rightarrow> RaceHashSubtableEntry" where
  "root_subtable_entry m r i j = load_ste m (root_subtable_entry_addr r i j)"

section \<open>Addresses used by the client\<close>

record KVTableAddrInfo =
  ta_server_id_list :: "byte list"
  ta_f_bucket_addr :: "addr list"
  ta_s_bucket_addr :: "addr list"
  ta_f_bucket_addr_rkey :: "32 word list"
  ta_s_bucket_addr_rkey :: "32 word list"
  ta_f_main_idx :: "32 word"
  ta_s_main_idx :: "32 word"
  ta_f_idx :: "32 word"
  ta_s_idx :: "32 word"

record KVHashInfo =
  hi_hash_value :: "64 word"
  hi_prefix :: "64 word"
  hi_fp :: byte
  hi_local_depth :: byte

record KVInfo =
  kvi_l_addr :: addr
  kvi_lkey :: "32 word"
  kvi_key_len :: "32 word"
  kvi_value_len :: "32 word"

record KVRWAddr =
  rw_server_id :: byte
  rw_r_kv_addr :: addr
  rw_l_kv_addr :: addr
  rw_rkey :: "32 word"
  rw_lkey :: "32 word"
  rw_length :: "32 word"

record KVCASAddr =
  cas_server_id :: byte
  cas_r_kv_addr :: addr
  cas_l_kv_addr :: addr
  cas_rkey :: "32 word"
  cas_lkey :: "32 word"
  cas_orig_value :: "64 word"
  cas_swap_value :: "64 word"

record LocalCacheEntry =
  ce_r_slot_addr :: "addr list"
  ce_l_slot_ptr :: RaceHashSlot
  ce_miss_cnt :: "32 word"
  ce_acc_cnt :: "32 word"

text \<open>Both index functions divide by \<open>capacity / 2\<close>; a capacity below two traps.\<close>

definition SubtableFirstIndex :: "64 word \<Rightarrow> 64 word \<Rightarrow> 64 word option" where
  "SubtableFirstIndex hash_value capacity =
     (if capacity div 2 = 0 then None else Some (hash_value mod (capacity div 2)))"

definition SubtableSecondIndex :: "64 word \<Rightarrow> 64 word \<Rightarrow> 64 word \<Rightarrow> 64 word option" where
  "SubtableSecondIndex hash_value f_index capacity =
     (let hash = ucast hash_value :: 32 word;
          partial = ucast (drop_bit 16 hash) :: 16 word;
          non_sero_tag = push_bit 1 (drop_bit 1 partial) + 1;
          hash_of_tag = ucast non_sero_tag * 0xc6a4a7935bd1e995 :: 64 word
      in if capacity div 2 = 0 then None
         else Some ((f_index XOR hash_of_tag) mod (capacity div 2) + capacity div 2))"

definition HashIndexConvert40To64Bits :: "byte list \<Rightarrow> 64 word" where
  "HashIndexConvert40To64Bits p =
     push_bit 40 (ucast (p ! 0)) OR push_bit 32 (ucast (p ! 1)) OR push_bit 24 (ucast (p ! 2))
     OR push_bit 16 (ucast (p ! 3)) OR push_bit 8 (ucast (p ! 4))"

definition HashIndexConvert64To40Bits :: "64 word \<Rightarrow> byte list" where
  "HashIndexConvert64To40Bits a =
     [ucast (drop_bit 40 a AND 0xFF), ucast (drop_bit 32 a AND 0xFF),
      ucast (drop_bit 24 a AND 0xFF), ucast (drop_bit 16 a AND 0xFF),
      ucast (drop_bit 8 a AND 0xFF)]"

definition ConvertSlotToAddr :: "RaceHashSlot \<Rightarrow> KVRWAddr \<Rightarrow> KVRWAddr" where
  "ConvertSlotToAddr s kv_addr = kv_addr\<lparr>rw_server_id := slot_server_id s,
     rw_r_kv_addr := HashIndexConvert40To64Bits (slot_pointer s)\<rparr>"

section \<open>The key hash\<close>

abbreviation NUMBER64_1 :: "64 word" where "NUMBER64_1 \<equiv> 11400714785074694791"
abbreviation NUMBER64_2 :: "64 word" where "NUMBER64_2 \<equiv> 14029467366897019727"
abbreviation NUMBER64_3 :: "64 word" where "NUMBER64_3 \<equiv> 1609587929392839161"
abbreviation NUMBER64_4 :: "64 word" where "NUMBER64_4 \<equiv> 9650029242287828579"
abbreviation NUMBER64_5 :: "64 word" where "NUMBER64_5 \<equiv> 2870177450012600261"

definition shifting_hash :: "64 word \<Rightarrow> nat \<Rightarrow> 64 word" where
  "shifting_hash x r = push_bit r x OR drop_bit (64 - r) x"

definition hash_read64_align :: "mem \<Rightarrow> addr \<Rightarrow> 32 word \<Rightarrow> 64 word" where
  "hash_read64_align m p align = (if align = 0 then load64 m p else load64 m p)"

definition hash_read32_align :: "mem \<Rightarrow> addr \<Rightarrow> 32 word \<Rightarrow> 32 word" where
  "hash_read32_align m p align = (if align = 0 then load32 m p else load32 m p)"

text \<open>
  The hash walks a pointer \<open>p\<close> towards \<open>end\<close>; \<open>n\<close> is the distance \<open>end - p\<close>, so that
  \<open>p <= end - 32\<close>, \<open>p + 8 <= end\<close> and \<open>p < end\<close> read \<open>32 \<le> n\<close>, \<open>8 \<le> n\<close> and \<open>0 < n\<close>.
\<close>

definition hash_lane :: "mem \<Rightarrow> 32 word \<Rightarrow> addr \<Rightarrow> 64 word \<Rightarrow> 64 word" where
  "hash_lane m align p v =
     shifting_hash (v + hash_read64_align m p align * NUMBER64_2) 31 * NUMBER64_1"

fun hash_loop32 :: "mem \<Rightarrow> 32 word \<Rightarrow> addr \<Rightarrow> nat \<Rightarrow> 64 word \<times> 64 word \<times> 64 word \<times> 64 word
    \<Rightarrow> (addr \<times> nat) \<times> 64 word \<times> 64 word \<times> 64 word \<times> 64 word" where
  "hash_loop32 m align p n (v1, v2, v3, v4) =
     (let v1 = hash_lane m align p v1;
          v2 = hash_lane m align (p + 8) v2;
          v3 = hash_lane m align (p + 16) v3;
          v4 = hash_lane m align (p + 24) v4;
          p = p + 32;
          n' = n - 32
      in if 32 \<le> n' then hash_loop32 m align p n' (v1, v2, v3, v4)
         else ((p, n'), v1, v2, v3, v4))"

definition hash_merge :: "64 word \<Rightarrow> 64 word \<Rightarrow> 64 word" where
  "hash_merge hash v =
     (hash XOR (shifting_hash (v * NUMBER64_2) 31 * NUMBER64_1)) * NUMBER64_1 + NUMBER64_4"

definition hash_head :: "mem \<Rightarrow> 32 word \<Rightarrow> addr \<Rightarrow> nat \<Rightarrow> 64 word \<Rightarrow> (addr \<times> nat) \<times> 64 word" where
  "hash_head m align p n seed =
     (if 32 \<le> n then
        (let (pos, v1, v2, v3, v4) = hash_loop32 m align p n
               (seed + NUMBER64_1 + NUMBER64_2, seed + NUMBER64_2, seed + 0, seed - NUMBER64_1);
             hash = shifting_hash v1 1 + shifting_hash v2 7 + shifting_hash v3 12
                    + shifting_hash v4 18
         in (pos, hash_merge (hash_merge (hash_merge (hash_merge hash v1) v2) v3) v4))
      else ((p, n), seed + NUMBER64_5))"

fun hash_loop8 :: "mem \<Rightarrow> 32 word \<Rightarrow> addr \<Rightarrow> nat \<Rightarrow> 64 word \<Rightarrow> (addr \<times> nat) \<times> 64 word" where
  "hash_loop8 m align p n hash =
     (if 8 \<le> n then
        (let k1 = hash_read64_align m p align * NUMBER64_2;
             k1 = shifting_hash k1 31 * NUMBER64_1;
             hash = hash XOR k1;
             hash = shifting_hash hash 27 * NUMBER64_1 + NUMBER64_4
         in hash_loop8 m align (p + 8) (n - 8) hash)
      else ((p, n), hash))"

definition hash_step4 :: "mem \<Rightarrow> 32 word \<Rightarrow> addr \<Rightarrow> nat \<Rightarrow> 64 word \<Rightarrow> (addr \<times> nat) \<times> 64 word" where
  "hash_step4 m align p n hash =
     (if 4 \<le> n then
        (let hash = hash XOR (ucast (hash_read32_align m p align) * NUMBER64_1);
             hash = shifting_hash hash 23 * NUMBER64_2 + NUMBER64_3
         in ((p + 4, n - 4), hash))
      else ((p, n), hash))"

fun hash_loop1 :: "mem \<Rightarrow> addr \<Rightarrow> nat \<Rightarrow> 64 word \<Rightarrow> 64 word" where
  "hash_loop1 m p 0 hash = hash"
| "hash_loop1 m p (Suc n) hash =
     hash_loop1 m (p + 1) n (shifting_hash (hash XOR (ucast (m p) * NUMBER64_5)) 11 * NUMBER64_1)"

definition hash_final :: "64 word \<Rightarrow> 64 word" where
  "hash_final hash =
     (let hash = (hash XOR drop_bit 33 hash) * NUMBER64_2;
          hash = (hash XOR drop_bit 29 hash) * NUMBER64_3
      in hash XOR drop_bit 32 hash)"

definition string_key_hash_computation ::
    "mem \<Rightarrow> addr \<Rightarrow> 64 word \<Rightarrow> 64 word \<Rightarrow> 32 word \<Rightarrow> 64 word" where
  "string_key_hash_computation m data len seed align =
     (let ((p, n), hash) = hash_head m align data (unat len) seed;
          hash = hash + len;
          ((p, n), hash) = hash_loop8 m align p n hash;
          ((p, n), hash) = hash_step4 m align p n hash
      in hash_final (hash_loop1 m p n hash))"

definition VariableLengthHash :: "mem \<Rightarrow> addr \<Rightarrow> 64 word \<Rightarrow> 64 word \<Rightarrow> 64 word" where
  "VariableLengthHash m data len seed =
     (if data AND 7 = 0 then string_key_hash_computation m data len seed 1
      else string_key_hash_computation m data len seed 0)"

definition HashIndexComputeFp :: "64 word \<Rightarrow> byte" where
  "HashIndexComputeFp hash =
     (let fp = 0;
          hash = drop_bit 48 hash;
          fp = fp XOR ucast hash;
          hash = drop_bit 8 hash
      in fp XOR ucast hash)"

section \<open>Scanning a bucket\<close>

fun IsEmptyPointer :: "byte list \<Rightarrow> nat \<Rightarrow> bool" where
  "IsEmptyPointer pointer 0 \<longleftrightarrow> True"
| "IsEmptyPointer pointer (Suc n) \<longleftrightarrow> hd pointer = 0 \<and> IsEmptyPointer (tl pointer) n"

definition slot_is_free :: "RaceHashSlot \<Rightarrow> bool" where
  "slot_is_free s \<longleftrightarrow> slot_fp s = 0 \<and> slot_kv_len s = 0 \<and> IsEmptyPointer (slot_pointer s) 5"

definition GetFreeSlotNum :: "mem \<Rightarrow> addr \<Rightarrow> nat \<times> nat" where
  "GetFreeSlotNum m bucket =
     fold (\<lambda>i (free_num, free_idx).
             if slot_is_free (load_slot m (bucket_slot bucket i)) then (free_num + 1, i)
             else (free_num, free_idx))
       [0..<RACE_HASH_ASSOC_NUM] (0, RACE_HASH_ASSOC_NUM)"

definition CheckKey :: "mem \<Rightarrow> addr \<Rightarrow> 32 word \<Rightarrow> addr \<Rightarrow> 32 word \<Rightarrow> bool" where
  "CheckKey m r_key_addr r_key_len l_key_addr l_key_len =
     (if r_key_len \<noteq> l_key_len then False
      else if VariableLengthHash m r_key_addr (ucast r_key_len) 0
            \<noteq> VariableLengthHash m l_key_addr (ucast l_key_len) 0 then False
      else load_bytes (unat r_key_len) m r_key_addr = load_bytes (unat r_key_len) m l_key_addr)"

section \<open>Properties\<close>

subsection \<open>Bucket choice\<close>

lemma SubtableFirstIndex_bound:
  assumes "2 \<le> capacity"
  obtains i where "SubtableFirstIndex h capacity = Some i" "unat i < unat capacity div 2"
proof -
  have "unat (capacity div 2) = unat capacity div 2" by (simp add: unat_div_distrib)
  moreover have "2 \<le> unat capacity" using assms by (simp add: word_le_nat_alt)
  ultimately have pos: "0 < unat (capacity div 2)" by simp
  then have "capacity div 2 \<noteq> 0" by (metis unat_0 less_numeral_extra(3))
  then show ?thesis
    using that [of "h mod (capacity div 2)"] pos
    by (simp add: SubtableFirstIndex_def unat_mod_distrib unat_div_distrib)
qed

lemma SubtableSecondIndex_bound:
  assumes "2 \<le> capacity"
  obtains i where "SubtableSecondIndex h f capacity = Some i"
    "unat capacity div 2 \<le> unat i" "unat i < 2 * (unat capacity div 2)"
proof -
  let ?c = "capacity div 2"
  define x where "x = (f XOR (ucast (push_bit 1 (drop_bit 1 (ucast (drop_bit 16 (ucast h :: 32 word)) :: 16 word)) + 1)
     * 0xc6a4a7935bd1e995)) mod ?c"
  have c: "unat ?c = unat capacity div 2" by (simp add: unat_div_distrib)
  have "2 \<le> unat capacity" using assms by (simp add: word_le_nat_alt)
  then have pos: "0 < unat ?c" using c by simp
  then have "?c \<noteq> 0" by (metis unat_0 less_numeral_extra(3))
  then have "SubtableSecondIndex h f capacity = Some (x + ?c)"
    by (simp add: SubtableSecondIndex_def Let_def x_def)
  moreover have x: "unat x < unat ?c" using pos by (simp add: x_def unat_mod_distrib)
  moreover have "unat capacity < 2 ^ 64" by (rule order_less_le_trans [OF unsigned_less]) simp
  ultimately show ?thesis
    using that [of "x + ?c"] c by (simp add: unat_word_ariths)
qed

subsection \<open>The hash reads bytes only\<close>

lemma load_le_bytes_eq:
  assumes "\<And>i. i < n \<Longrightarrow> m (a + of_nat i) = m' (b + of_nat i)"
  shows "load_le n m a = load_le n m' b"
  using assms
proof (induction n arbitrary: a b)
  case (Suc n)
  have "m (a + 1 + of_nat i) = m' (b + 1 + of_nat i)" if "i < n" for i
    using Suc.prems [of "Suc i"] that by (simp add: algebra_simps)
  then show ?case using Suc.prems [of 0] Suc.IH [of "a + 1" "b + 1"] by simp
qed simp

text \<open>\<open>same_at\<close> relates two buffers that hold the same \<open>n\<close> bytes.\<close>

definition same_at :: "nat \<Rightarrow> mem \<Rightarrow> addr \<Rightarrow> mem \<Rightarrow> addr \<Rightarrow> bool" where
  "same_at n m a m' b \<longleftrightarrow> (\<forall>i<n. m (a + of_nat i) = m' (b + of_nat i))"

lemma same_at_shift:
  assumes "same_at n m a m' b" "k \<le> n"
  shows "same_at (n - k) m (a + of_nat k) m' (b + of_nat k)"
  unfolding same_at_def
proof (intro allI impI)
  fix i assume "i < n - k"
  then show "m (a + of_nat k + of_nat i) = m' (b + of_nat k + of_nat i)"
    using assms(1) [unfolded same_at_def, rule_format, of "k + i"] by (simp add: algebra_simps)
qed

lemma same_at_load:
  "same_at n m a m' b \<Longrightarrow> k \<le> n \<Longrightarrow> load_le k m a = load_le k m' b"
  by (rule load_le_bytes_eq) (simp add: same_at_def)

lemma same_at_read64:
  assumes "same_at n m a m' b" "k + 8 \<le> n"
  shows "hash_read64_align m (a + of_nat k) al = hash_read64_align m' (b + of_nat k) al'"
proof -
  have "k \<le> n" "8 \<le> n - k" using assms(2) by simp_all
  then show ?thesis
    using same_at_load [OF same_at_shift [OF assms(1)], of k 8] by (simp add: hash_read64_align_def)
qed

declare hash_loop32.simps [simp del] hash_loop8.simps [simp del]

lemma hash_loop32_same:
  assumes "same_at n m a m' b" "32 \<le> n"
  shows "\<exists>k vs'. k \<le> n \<and> hash_loop32 m al a n vs = ((a + of_nat k, n - k), vs')
     \<and> hash_loop32 m' al' b n vs = ((b + of_nat k, n - k), vs')"
  using assms
proof (induction m al a n vs arbitrary: b rule: hash_loop32.induct)
  case (1 m al p n v1 v2 v3 v4)
  have lane: "hash_lane m al (p + of_nat k) v = hash_lane m' al' (b + of_nat k) v"
    if "k + 8 \<le> 32" for k v
    using same_at_read64 [OF "1.prems"(1), of k al al'] that "1.prems"(2)
    by (simp add: hash_lane_def)
  note lanes = lane [of 0, simplified] lane [of 8, simplified] lane [of 16, simplified]
    lane [of 24, simplified]
  let ?ws = "(hash_lane m' al' b v1, hash_lane m' al' (b + 8) v2,
     hash_lane m' al' (b + 16) v3, hash_lane m' al' (b + 24) v4)"
  show ?case
  proof (cases "32 \<le> n - 32")
    case True
    have "same_at (n - 32) m (p + 32) m' (b + 32)"
      using same_at_shift [OF "1.prems"(1), of 32] "1.prems"(2) by simp
    then obtain k vs' where k: "k \<le> n - 32"
      "hash_loop32 m al (p + 32) (n - 32) ?ws = ((p + 32 + of_nat k, n - 32 - k), vs')"
      "hash_loop32 m' al' (b + 32) (n - 32) ?ws = ((b + 32 + of_nat k, n - 32 - k), vs')"
      using "1.IH" [OF refl refl refl refl refl refl True, of "b + 32"] True
      by (auto simp: lanes)
    then show ?thesis
      using True by (intro exI [of _ "32 + k"] exI [of _ vs'])
        (simp add: hash_loop32.simps [of m al p n] hash_loop32.simps [of m' al' b n] Let_def lanes algebra_simps)
  next
    case False
    then show ?thesis
      using "1.prems"(2) by (intro exI [of _ 32] exI [of _ ?ws])
        (simp add: hash_loop32.simps [of m al p n] hash_loop32.simps [of m' al' b n] Let_def lanes)
  qed
qed

lemma hash_loop8_same:
  assumes "same_at n m a m' b"
  shows "\<exists>k h'. k \<le> n \<and> hash_loop8 m al a n h = ((a + of_nat k, n - k), h')
     \<and> hash_loop8 m' al' b n h = ((b + of_nat k, n - k), h')"
  using assms
proof (induction m al a n h arbitrary: b rule: hash_loop8.induct)
  case (1 m al p n h)
  show ?case
  proof (cases "8 \<le> n")
    case True
    have rd: "hash_read64_align m p al = hash_read64_align m' b al'"
      using same_at_read64 [OF "1.prems", of 0] True by simp
    have "same_at (n - 8) m (p + 8) m' (b + 8)"
      using same_at_shift [OF "1.prems", of 8] True by simp
    from "1.IH" [OF True refl refl refl refl this] obtain k h' where k: "k \<le> n - 8"
      "hash_loop8 m al (p + 8) (n - 8) (shifting_hash (h XOR (shifting_hash (hash_read64_align m p al * NUMBER64_2) 31
         * NUMBER64_1)) 27 * NUMBER64_1 + NUMBER64_4) = ((p + 8 + of_nat k, n - 8 - k), h')"
      "hash_loop8 m' al' (b + 8) (n - 8) (shifting_hash (h XOR (shifting_hash (hash_read64_align m p al * NUMBER64_2) 31
         * NUMBER64_1)) 27 * NUMBER64_1 + NUMBER64_4) = ((b + 8 + of_nat k, n - 8 - k), h')"
      by auto
    then show ?thesis
      using True by (intro exI [of _ "8 + k"] exI [of _ h'])
        (simp add: hash_loop8.simps [of m al p n] hash_loop8.simps [of m' al' b n] Let_def rd algebra_simps)
  next
    case False
    then show ?thesis
      by (intro exI [of _ 0] exI [of _ h])
        (simp add: hash_loop8.simps [of m al p n] hash_loop8.simps [of m' al' b n])
  qed
qed

lemma hash_step4_same:
  assumes "same_at n m a m' b"
  shows "\<exists>k h'. k \<le> n \<and> hash_step4 m al a n h = ((a + of_nat k, n - k), h')
     \<and> hash_step4 m' al' b n h = ((b + of_nat k, n - k), h')"
proof (cases "4 \<le> n")
  case True
  then have "hash_read32_align m a al = hash_read32_align m' b al'"
    using same_at_load [OF assms, of 4] by (simp add: hash_read32_align_def)
  then show ?thesis using True
    by - (rule exI [of _ "4 :: nat"], simp add: hash_step4_def Let_def)
next
  case False
  then show ?thesis by - (rule exI [of _ "0 :: nat"], simp add: hash_step4_def)
qed

lemma hash_loop1_same:
  "same_at n m a m' b \<Longrightarrow> hash_loop1 m a n h = hash_loop1 m' b n h"
proof (induction n arbitrary: a b h)
  case (Suc n)
  have "m a = m' b" using Suc.prems [unfolded same_at_def, rule_format, of 0] by simp
  moreover have "same_at n m (a + 1) m' (b + 1)"
    using same_at_shift [OF Suc.prems, of 1] by simp
  ultimately show ?case using Suc.IH by simp
qed simp

lemma hash_head_same:
  assumes "same_at n m a m' b"
  shows "\<exists>k h'. k \<le> n \<and> hash_head m al a n seed = ((a + of_nat k, n - k), h')
     \<and> hash_head m' al' b n seed = ((b + of_nat k, n - k), h')"
proof (cases "32 \<le> n")
  case True
  let ?vs = "(seed + NUMBER64_1 + NUMBER64_2, seed + NUMBER64_2, seed + 0, seed - NUMBER64_1)"
  obtain k v1 v2 v3 v4 where "k \<le> n"
    "hash_loop32 m al a n ?vs = ((a + of_nat k, n - k), v1, v2, v3, v4)"
    "hash_loop32 m' al' b n ?vs = ((b + of_nat k, n - k), v1, v2, v3, v4)"
    using hash_loop32_same [OF assms True, of al ?vs al'] by (metis surj_pair)
  then show ?thesis using True
    by - (rule exI [of _ k], simp add: hash_head_def)
next
  case False
  then show ?thesis by - (rule exI [of _ "0 :: nat"], simp add: hash_head_def)
qed

lemma string_key_hash_same:
  assumes "same_at (unat len) m a m' b"
  shows "string_key_hash_computation m a len seed al = string_key_hash_computation m' b len seed al'"
proof -
  from hash_head_same [OF assms] obtain k1 h1 where 1: "k1 \<le> unat len"
    "hash_head m al a (unat len) seed = ((a + of_nat k1, unat len - k1), h1)"
    "hash_head m' al' b (unat len) seed = ((b + of_nat k1, unat len - k1), h1)"
    by blast
  note s1 = same_at_shift [OF assms 1(1)]
  from hash_loop8_same [OF s1] obtain k2 h2 where 2: "k2 \<le> unat len - k1"
    "hash_loop8 m al (a + of_nat k1) (unat len - k1) (h1 + len)
       = ((a + of_nat k1 + of_nat k2, unat len - k1 - k2), h2)"
    "hash_loop8 m' al' (b + of_nat k1) (unat len - k1) (h1 + len)
       = ((b + of_nat k1 + of_nat k2, unat len - k1 - k2), h2)"
    by blast
  note s2 = same_at_shift [OF s1 2(1)]
  from hash_step4_same [OF s2] obtain k3 h3 where 3: "k3 \<le> unat len - k1 - k2"
    "hash_step4 m al (a + of_nat k1 + of_nat k2) (unat len - k1 - k2) h2
       = ((a + of_nat k1 + of_nat k2 + of_nat k3, unat len - k1 - k2 - k3), h3)"
    "hash_step4 m' al' (b + of_nat k1 + of_nat k2) (unat len - k1 - k2) h2
       = ((b + of_nat k1 + of_nat k2 + of_nat k3, unat len - k1 - k2 - k3), h3)"
    by blast
  note s3 = same_at_shift [OF s2 3(1)]
  show ?thesis
    unfolding string_key_hash_computation_def Let_def
    by (simp add: 1 2 3 hash_loop1_same [OF s3] del: diff_diff_left)
qed

lemma VariableLengthHash_same:
  "same_at (unat len) m a m' b \<Longrightarrow> VariableLengthHash m a len seed = VariableLengthHash m' b len seed"
  unfolding VariableLengthHash_def
  using string_key_hash_same [of len m a m' b seed] by metis

lemma same_at_iff_load_bytes:
  "same_at n m a m' b \<longleftrightarrow> load_bytes n m a = load_bytes n m' b"
  by (simp add: same_at_def load_bytes_eq_iff)

lemma unat_ucast64: "unat (ucast (w :: 32 word) :: 64 word) = unat w"
proof -
  have "unat w < 2 ^ 64" by (rule order_less_le_trans [OF unsigned_less]) simp
  then show ?thesis by (simp add: unsigned_ucast_eq take_bit_nat_eq_self)
qed

lemma CheckKey_iff:
  "CheckKey m a n b n' \<longleftrightarrow> n = n' \<and> load_bytes (unat n) m a = load_bytes (unat n') m b"
proof (cases "n = n' \<and> load_bytes (unat n) m a = load_bytes (unat n') m b")
  case True
  then have "same_at (unat (ucast n :: 64 word)) m a m b"
    by (auto simp: same_at_iff_load_bytes unat_ucast64)
  from VariableLengthHash_same [OF this] show ?thesis using True by (simp add: CheckKey_def)
qed (auto simp: CheckKey_def)

subsection \<open>Forty-bit pointers and slots\<close>

lemma length_convert40 [simp]: "length (HashIndexConvert64To40Bits a) = 5"
  by (simp add: HashIndexConvert64To40Bits_def)

lemma mask_FF: "(0xFF :: 64 word) = mask 8"
  by (simp add: mask_eq_exp_minus_1)

lemma length5_cases:
  assumes "length p = 5"
  obtains a b c d e where "p = [a, b, c, d, e]"
  using assms by (auto simp: length_Suc_conv eval_nat_numeral)

lemma convert64To40_40To64:
  assumes "length p = 5"
  shows "HashIndexConvert64To40Bits (HashIndexConvert40To64Bits p) = p"
proof -
  from assms obtain a b c d e where p: "p = [a, b, c, d, e]" by (rule length5_cases)
  have out: "\<not> bit (x :: byte) i" if "8 \<le> i" for x i
    using that by (auto dest: bit_imp_le_length)
  show ?thesis
    unfolding p HashIndexConvert64To40Bits_def HashIndexConvert40To64Bits_def mask_FF
    by (auto intro!: bit_word_eqI simp: bit_simps out)
qed

lemma bit_byte_of_addr:
  fixes a :: "64 word"
  assumes "k \<le> 56"
  shows "bit (push_bit k (ucast (ucast (drop_bit k a AND mask 8) :: byte)) :: 64 word) i
     \<longleftrightarrow> k \<le> i \<and> i < k + 8 \<and> bit a i"
proof (cases "k \<le> i")
  case True
  then have "k + (i - k) = i" by simp
  then show ?thesis using True assms by (auto simp: bit_simps)
qed (simp add: bit_simps)

text \<open>The pointer of a slot keeps bits 8 to 47 of an address.\<close>

lemma bit_convert40To64_64To40:
  "bit (HashIndexConvert40To64Bits (HashIndexConvert64To40Bits a)) i
     \<longleftrightarrow> 8 \<le> i \<and> i < 48 \<and> bit a i"
proof -
  have "bit (HashIndexConvert40To64Bits (HashIndexConvert64To40Bits a)) i \<longleftrightarrow>
     (40 \<le> i \<and> i < 48 \<or> 32 \<le> i \<and> i < 40 \<or> 24 \<le> i \<and> i < 32 \<or> 16 \<le> i \<and> i < 24 \<or> 8 \<le> i \<and> i < 16)
     \<and> bit a i"
    unfolding HashIndexConvert64To40Bits_def HashIndexConvert40To64Bits_def mask_FF
    by (simp add: bit_or_iff bit_byte_of_addr) blast
  moreover have "(40 \<le> i \<and> i < 48 \<or> 32 \<le> i \<and> i < 40 \<or> 24 \<le> i \<and> i < 32 \<or> 16 \<le> i \<and> i < 24
      \<or> 8 \<le> i \<and> i < 16) \<longleftrightarrow> 8 \<le> i \<and> i < 48" by linarith
  ultimately show ?thesis by simp
qed

lemma convert40To64_64To40:
  assumes "\<And>i. bit a i \<Longrightarrow> 8 \<le> i \<and> i < 48"
  shows "HashIndexConvert40To64Bits (HashIndexConvert64To40Bits a) = a"
  by (rule bit_word_eqI) (auto simp: bit_convert40To64_64To40 dest: assms)

lemma aligned_bits:
  fixes a :: "64 word"
  assumes "unat a mod 256 = 0" "unat a < 2 ^ 48" "bit a i"
  shows "8 \<le> i \<and> i < 48"
proof
  have "take_bit 8 a = 0"
    using assms(1) by (simp add: take_bit_eq_mod unat_mod_distrib flip: unat_eq_0)
  then have "\<not> bit (take_bit 8 a) i" by simp
  then show "8 \<le> i" using assms(3) by (simp add: bit_take_bit_iff)
  have "take_bit 48 (unat a) = unat a" using assms(2) by (rule take_bit_nat_eq_self)
  then have "take_bit 48 a = a" by (metis unsigned_take_bit_eq unsigned_word_eqI)
  then have "bit (take_bit 48 a) i" using assms(3) by simp
  then show "i < 48" by (simp add: bit_take_bit_iff)
qed

lemma slot_bytes_load: "slot_bytes (load_slot m a) = load_bytes 8 m a"
  by (simp add: slot_bytes_def load_slot_def eval_nat_numeral algebra_simps)

lemma load_slot_eq_iff:
  "load_slot m a = load_slot m' b \<longleftrightarrow> load_bytes 8 m a = load_bytes 8 m' b"
proof
  assume "load_bytes 8 m a = load_bytes 8 m' b"
  then have "slot_bytes (load_slot m a) = slot_bytes (load_slot m' b)" by (simp only: slot_bytes_load)
  then show "load_slot m a = load_slot m' b"
    by (simp add: slot_bytes_def)
qed (metis slot_bytes_load)

lemma ConvertSlotToInt_eq_iff:
  "ConvertSlotToInt m a = ConvertSlotToInt m' b \<longleftrightarrow> load_slot m a = load_slot m' b"
proof
  assume "ConvertSlotToInt m a = ConvertSlotToInt m' b"
  then have "le_bytes 8 (load64 m a) = le_bytes 8 (load64 m' b)" by (simp add: ConvertSlotToInt_def)
  then show "load_slot m a = load_slot m' b"
    by (simp add: le_bytes_load_le load_slot_eq_iff)
next
  assume "load_slot m a = load_slot m' b"
  then show "ConvertSlotToInt m a = ConvertSlotToInt m' b"
    unfolding ConvertSlotToInt_def
    by (intro load_le_bytes_eq) (simp add: load_slot_eq_iff load_bytes_eq_iff)
qed

lemma load_store_slot:
  "length (slot_pointer s) = 5 \<Longrightarrow> load_slot (store_slot a s m) a = s"
proof -
  assume p: "length (slot_pointer s) = 5"
  have "slot_bytes (load_slot (store_slot a s m) a) = slot_bytes s"
    unfolding slot_bytes_load store_slot_def
    by (rule load_store_bytes) (simp_all add: slot_bytes_def p)
  then show ?thesis by (simp add: slot_bytes_def)
qed

lemma load_bytes_zero: "load_bytes n (\<lambda>_. 0) a = replicate n 0"
  by (induction n arbitrary: a) simp_all

lemma ConvertSlotToInt_0:
  "ConvertSlotToInt m a = 0 \<longleftrightarrow> load_bytes 8 m a = replicate 8 0"
proof -
  have z: "ConvertSlotToInt (\<lambda>_. 0) a = 0"
    by (simp add: ConvertSlotToInt_def eval_nat_numeral)
  show ?thesis
    using ConvertSlotToInt_eq_iff [of m a "\<lambda>_. 0" a] by (simp add: z load_slot_eq_iff load_bytes_zero)
qed

subsection \<open>Free slots\<close>

lemma IsEmptyPointer_iff:
  "n \<le> length p \<Longrightarrow> IsEmptyPointer p n \<longleftrightarrow> (\<forall>i<n. p ! i = 0)"
proof (induction n arbitrary: p)
  case (Suc n)
  then obtain b q where p: "p = b # q" by (cases p) auto
  then have "IsEmptyPointer q n \<longleftrightarrow> (\<forall>i<n. q ! i = 0)" using Suc by simp
  then show ?case by (simp add: p All_less_Suc2)
qed simp

lemma fold_last_match:
  "fold (\<lambda>i (k, j). if P i then (k + 1, i) else (k, j)) xs (k0, j0) =
     (k0 + length (filter P xs), if filter P xs = [] then j0 else last (filter P xs))"
  by (induction xs arbitrary: k0 j0) auto

lemma GetFreeSlotNum_eq:
  "GetFreeSlotNum m b =
     (let free = filter (\<lambda>i. slot_is_free (load_slot m (bucket_slot b i))) [0..<RACE_HASH_ASSOC_NUM]
      in (length free, if free = [] then RACE_HASH_ASSOC_NUM else last free))"
  unfolding GetFreeSlotNum_def
  by (subst fold_last_match) (simp add: Let_def)

lemma GetFreeSlotNum_some:
  assumes "GetFreeSlotNum m b = (n, i)" "n > 0"
  shows "i < RACE_HASH_ASSOC_NUM" "slot_is_free (load_slot m (bucket_slot b i))"
proof -
  let ?f = "filter (\<lambda>i. slot_is_free (load_slot m (bucket_slot b i))) [0..<RACE_HASH_ASSOC_NUM]"
  have "?f \<noteq> []" "i = last ?f"
    using assms by (auto simp: GetFreeSlotNum_eq Let_def split: if_splits)
  then have "i \<in> set ?f" using last_in_set by blast
  then show "i < RACE_HASH_ASSOC_NUM" "slot_is_free (load_slot m (bucket_slot b i))"
    by auto
qed

lemma GetFreeSlotNum_zero:
  "fst (GetFreeSlotNum m b) = 0 \<longleftrightarrow>
     (\<forall>i < RACE_HASH_ASSOC_NUM. \<not> slot_is_free (load_slot m (bucket_slot b i)))"
  by (auto simp: GetFreeSlotNum_eq Let_def filter_empty_conv)

section \<open>Properties\<close>

text \<open>
  C16. For every hash value and every table of at least two buckets both
  candidate positions exist, the first in the lower half of the table and the second in
  the upper half: the two candidates of a key never coincide.
\<close>

theorem candidate_buckets:
  assumes "2 \<le> capacity"
  shows "\<exists>i j. SubtableFirstIndex h capacity = Some i \<and> SubtableSecondIndex h i capacity = Some j \<and>
     unat i < unat capacity div 2 \<and> unat capacity div 2 \<le> unat j \<and> unat j < unat capacity"
proof -
  obtain i where i: "SubtableFirstIndex h capacity = Some i" "unat i < unat capacity div 2"
    using SubtableFirstIndex_bound [OF assms] .
  obtain j where "SubtableSecondIndex h i capacity = Some j" "unat capacity div 2 \<le> unat j"
    "unat j < 2 * (unat capacity div 2)"
    using SubtableSecondIndex_bound [OF assms] .
  then show ?thesis using i by (intro exI [of _ i] exI [of _ j]) simp
qed

theorem candidate_buckets_witness:
  "\<exists>i j. SubtableFirstIndex 0x123456789ABCDEF0 34000 = Some i \<and> SubtableSecondIndex 0x123456789ABCDEF0 i 34000 = Some j \<and>
     unat i < 17000 \<and> 17000 \<le> unat j \<and> unat j < 34000"
  using candidate_buckets [of 34000 "0x123456789ABCDEF0"] by simp

text \<open>
  C15. The hash of a key depends on its bytes and its length alone: not on
  where it is stored, how the address is aligned or what else memory holds.
\<close>

theorem hash_of_content:
  assumes "load_bytes (unat len) m a = load_bytes (unat len) m' b"
  shows "VariableLengthHash m a len seed = VariableLengthHash m' b len seed"
  using assms by (intro VariableLengthHash_same) (simp add: same_at_iff_load_bytes)

theorem hash_of_content_witness:
  "VariableLengthHash (store_bytes 0x10 [1, 2, 3] (\<lambda>_. 0)) 0x10 3 7 = VariableLengthHash (store_bytes 0x25 [1, 2, 3] (\<lambda>_. 9)) 0x25 3 7"
proof (rule hash_of_content)
  have "load_bytes 3 (store_bytes a [1, 2, 3] m) a = [1, 2, 3]" for a m by (rule load_store_bytes) simp_all
  then show "load_bytes (unat (3 :: 64 word)) (store_bytes 0x10 [1, 2, 3] (\<lambda>_. 0)) 0x10 =
      load_bytes (unat (3 :: 64 word)) (store_bytes 0x25 [1, 2, 3] (\<lambda>_. 9)) 0x25" by (simp del: store_bytes.simps)
qed


text \<open>
  C20. The 64-bit value that is compared and swapped determines the slot: two
  slots have the same value exactly if they have the same content, a slot that is
  written is read back, and the value is 0 exactly for the slot of zero bytes.
\<close>

theorem slot_as_word:
  "(ConvertSlotToInt m a = ConvertSlotToInt m' b \<longleftrightarrow> load_slot m a = load_slot m' b) \<and>
   load_slot (store_slot a \<lparr>slot_fp = fp, slot_kv_len = l, slot_server_id = sid,
      slot_pointer = HashIndexConvert64To40Bits p\<rparr> m) a
     = \<lparr>slot_fp = fp, slot_kv_len = l, slot_server_id = sid, slot_pointer = HashIndexConvert64To40Bits p\<rparr> \<and>
   (ConvertSlotToInt m a = 0 \<longleftrightarrow> load_bytes 8 m a = replicate 8 0)"
  by (simp add: ConvertSlotToInt_eq_iff load_store_slot ConvertSlotToInt_0)

text \<open>
  C19. A 40-bit pointer field holds every 256-aligned address below
  2^48 exactly, and every pointer field is the field of the address it decodes to.
\<close>

theorem pointer_round_trip:
  "(length p = 5 \<longrightarrow> HashIndexConvert64To40Bits (HashIndexConvert40To64Bits p) = p) \<and>
   (unat a mod 256 = 0 \<and> unat a < 2 ^ 48 \<longrightarrow> HashIndexConvert40To64Bits (HashIndexConvert64To40Bits a) = a)"
proof (intro conjI impI)
  show "HashIndexConvert64To40Bits (HashIndexConvert40To64Bits p) = p" if "length p = 5"
    by (rule convert64To40_40To64 [OF that])
  show "HashIndexConvert40To64Bits (HashIndexConvert64To40Bits a) = a" if "unat a mod 256 = 0 \<and> unat a < 2 ^ 48"
    using that by (intro convert40To64_64To40) (rule aligned_bits, simp_all)
qed

theorem pointer_round_trip_witness:
  "HashIndexConvert40To64Bits (HashIndexConvert64To40Bits 0x7F0012345600) = 0x7F0012345600"
  using pointer_round_trip [of "[]" "0x7F0012345600"] by simp



end
