(* ===== verification/BlockPool.thy ===== *)
theory BlockPool
  imports Prelude
begin

text \<open>
  The two contracts an allocator of this system offers. \<open>fresh_allocator\<close> is what
  every client of an allocator needs: an allocation never returns a block that is
  still taken. \<open>fifo_pool\<close> is the stronger contract of the memory node, which also
  takes blocks back and hands them out in queue order.
\<close>

primrec alloc_many :: "('s \<Rightarrow> ('b \<times> 's) option) \<Rightarrow> nat \<Rightarrow> 's \<Rightarrow> ('b list \<times> 's) option" where
  "alloc_many alloc 0 s = Some ([], s)"
| "alloc_many alloc (Suc n) s = do {
     (b, s') \<leftarrow> alloc s;
     (bs, s'') \<leftarrow> alloc_many alloc n s';
     Some (b # bs, s'') }"

locale fresh_allocator =
  fixes alloc :: "'s \<Rightarrow> ('b \<times> 's) option"
    and taken :: "'s \<Rightarrow> 'b set"
    and inv :: "'s \<Rightarrow> bool"
  assumes alloc_fresh: "inv s \<Longrightarrow> alloc s = Some (b, s') \<Longrightarrow> b \<notin> taken s"
    and alloc_taken: "inv s \<Longrightarrow> alloc s = Some (b, s') \<Longrightarrow> taken s' = insert b (taken s)"
    and alloc_inv: "inv s \<Longrightarrow> alloc s = Some (b, s') \<Longrightarrow> inv s'"
begin

lemma alloc_many_distinct:
  "inv s \<Longrightarrow> alloc_many alloc n s = Some (bs, s') \<Longrightarrow>
   distinct bs \<and> set bs \<inter> taken s = {} \<and> taken s' = taken s \<union> set bs \<and> inv s' \<and> length bs = n"
proof (induction n arbitrary: s bs s')
  case (Suc n)
  from Suc.prems(2) obtain b s1 bs1 where
    b: "alloc s = Some (b, s1)" and r: "alloc_many alloc n s1 = Some (bs1, s')" "bs = b # bs1"
    by (auto split: bind_splits)
  note 1 = alloc_fresh [OF Suc.prems(1) b] alloc_taken [OF Suc.prems(1) b]
    alloc_inv [OF Suc.prems(1) b]
  from Suc.IH [OF 1(3) r(1)] show ?case using 1 r(2) by auto
qed simp

end

locale fifo_pool = fresh_allocator alloc taken inv
  for alloc :: "'s \<Rightarrow> ('b \<times> 's) option" and taken :: "'s \<Rightarrow> 'b set" and inv :: "'s \<Rightarrow> bool" +
  fixes release :: "'b \<Rightarrow> 's \<Rightarrow> 's option"
    and avail :: "'s \<Rightarrow> 'b list"
  assumes alloc_head: "inv s \<Longrightarrow> alloc s = Some (b, s') \<Longrightarrow> avail s = b # avail s'"
    and alloc_total: "inv s \<Longrightarrow> avail s \<noteq> [] \<Longrightarrow> alloc s \<noteq> None"
    and release_iff: "inv s \<Longrightarrow> release b s \<noteq> None \<longleftrightarrow> b \<in> taken s"
    and release_some: "inv s \<Longrightarrow> release b s = Some s' \<Longrightarrow>
      taken s' = taken s - {b} \<and> avail s' = avail s @ [b] \<and> inv s'"
begin

lemma alloc_many_fifo:
  "inv s \<Longrightarrow> n \<le> length (avail s) \<Longrightarrow>
   \<exists>s'. alloc_many alloc n s = Some (take n (avail s), s') \<and> avail s' = drop n (avail s) \<and> inv s'"
proof (induction n arbitrary: s)
  case (Suc n)
  then obtain b s1 where b: "alloc s = Some (b, s1)" using alloc_total [of s] by fastforce
  then have a: "avail s = b # avail s1" using alloc_head Suc.prems(1) by blast
  with Suc.IH [of s1] alloc_inv [OF Suc.prems(1) b] Suc.prems(2) show ?case
    by (auto simp: b)
qed simp

text \<open>A released block comes back only after everything queued before it.\<close>

lemma release_then_alloc:
  assumes "inv s" "release b s = Some s'"
  shows "\<exists>s''. alloc_many alloc (Suc (length (avail s))) s' = Some (avail s @ [b], s'')"
  using alloc_many_fifo [of s' "Suc (length (avail s))"] release_some [OF assms] by auto

end

end
