(* ===== verification/ServerMM.thy ===== *)
theory ServerMM
  imports Hashtable BlockPool
begin

text \<open>
  The memory node's allocator, \<open>src/src/server_mm.h\<close> and \<open>server_mm.cc\<close>: the
  layout of the registered region, the initial hash index, the deterministic
  placement of replicated blocks, and the two allocation services a client can
  reach over UDP.
\<close>

section \<open>State\<close>

record ServerMM =
  smm_my_sid :: "16 word"
  smm_base_addr :: addr
  smm_base_len :: "64 word"
  smm_client_meta_area_off :: "64 word"
  smm_client_meta_area_len :: "64 word"
  smm_client_gc_area_off :: "64 word"
  smm_client_gc_area_len :: "64 word"
  smm_client_hash_area_off :: "64 word"
  smm_client_hash_area_len :: "64 word"
  smm_client_kv_area_off :: "64 word"
  smm_client_kv_area_len :: "64 word"
  smm_client_kv_area_limit :: addr
  smm_num_memory :: "32 word"
  smm_num_replication :: "32 word"
  smm_block_size :: "32 word"
  smm_num_blocks :: "32 word"
  smm_rkey :: "32 word"
  smm_subtable_alloc_map :: "bool list"
  smm_allocable_blocks :: "addr list"
  smm_allocated_blocks :: "addr \<Rightarrow> bool"

text \<open>The fields of \<open>GlobalConfig\<close> that the allocators and the client read.\<close>

record GlobalConfig =
  conf_server_id :: "32 word"
  conf_memory_num :: "32 word"
  conf_server_base_addr :: "64 word"
  conf_server_data_len :: "64 word"
  conf_block_size :: "64 word"
  conf_subblock_size :: "64 word"
  conf_client_local_size :: "64 word"
  conf_num_replication :: "32 word"
  conf_num_idx_rep :: "32 word"
  conf_num_coroutines :: "32 word"
  conf_is_recovery :: bool
  conf_miss_rate_threash_num :: nat
  conf_miss_rate_threash_den :: nat

section \<open>The hash index on a fresh node\<close>

definition init_root :: "64 word \<Rightarrow> ServerMM \<Rightarrow> addr \<Rightarrow> mem \<Rightarrow> mem" where
  "init_root rnd s r m =
     (let m = store64 r (of_nat RACE_HASH_GLOBAL_DEPTH) m;
          m = store64 (r + 8) (of_nat RACE_HASH_INIT_LOCAL_DEPTH) m;
          m = store64 (r + 16) (of_nat RACE_HASH_MAX_GLOBAL_DEPTH) m;
          m = store64 (r + 24) (of_nat RACE_HASH_MAX_SUBTABLE_NUM) m;
          m = store64 (r + 32) (of_nat RACE_HASH_MAX_SUBTABLE_NUM) m;
          m = store64 (r + 40) (of_nat RACE_HASH_INIT_SUBTABLE_NUM) m;
          m = store64 (r + 56) (of_nat RACE_HASH_ADDRESSABLE_BUCKET_NUM) m;
          m = store64 (r + 64) (of_nat RACE_HASH_SUBTABLE_BUCKET_NUM) m;
          m = store64 (r + 72) rnd m;
          m = store64 (r + 88) (smm_client_hash_area_off s) m;
          m = store64 (r + 96) (smm_client_hash_area_off s + roundup_256 (of_nat ROOT_RES_LEN)) m;
          m = store64 (r + 104) (smm_client_kv_area_off s) m;
          m = store64 (r + 112) (smm_client_kv_area_len s) m
      in store64 (r + 120) 0 m)"

definition init_bucket :: "nat \<Rightarrow> addr \<Rightarrow> nat \<Rightarrow> mem \<Rightarrow> mem" where
  "init_bucket i cur_subtable_addr j m =
     (let bucket = cur_subtable_addr + of_nat (j * RaceHashBucket_size);
          m = store_bytes bucket (le_bytes 4 (of_nat RACE_HASH_INIT_LOCAL_DEPTH :: 32 word)) m
      in store_bytes (bucket + 4) (le_bytes 4 (of_nat i :: 32 word)) m)"

definition init_subtable :: "addr \<Rightarrow> ServerMM \<Rightarrow> mem \<Rightarrow> ServerMM \<times> mem" where
  "init_subtable subtable_addr s m =
     (let max_subtables = unat ((smm_base_addr s + smm_client_hash_area_off s
              + smm_client_hash_area_len s - subtable_addr)
              div roundup_256 (of_nat SUBTABLE_LEN))
      in (s\<lparr>smm_subtable_alloc_map := replicate max_subtables False\<rparr>,
          fold (\<lambda>i. fold (init_bucket i (subtable_addr + of_nat i * roundup_256 (of_nat SUBTABLE_LEN)))
                      [0..<RACE_HASH_ADDRESSABLE_BUCKET_NUM])
            [0..<max_subtables] m))"

definition get_subtable_st_addr :: "ServerMM \<Rightarrow> addr" where
  "get_subtable_st_addr s =
     smm_client_hash_area_off s + smm_base_addr s + roundup_256 (of_nat ROOT_RES_LEN)"

definition get_kv_area_addr :: "ServerMM \<Rightarrow> addr" where
  "get_kv_area_addr s = smm_client_kv_area_off s + smm_base_addr s"

definition init_hashtable :: "64 word \<Rightarrow> ServerMM \<Rightarrow> mem \<Rightarrow> ServerMM \<times> mem" where
  "init_hashtable rnd s m =
     (let root_addr = smm_base_addr s + smm_client_hash_area_off s;
          m = init_root rnd s root_addr m
      in init_subtable (get_subtable_st_addr s) s m)"

section \<open>Block placement\<close>

text \<open>
  \<open>skip_full\<close> is the inner \<open>while\<close> that moves past memory nodes whose cursor has
  reached the limit; it does not return when every cursor has.
\<close>

partial_function (option) skip_full :: "addr list \<Rightarrow> addr \<Rightarrow> nat \<Rightarrow> nat \<Rightarrow> nat option" where
  [code]: "skip_full ptrs limit num_memory st_sid =
     (if ptrs ! st_sid = limit then skip_full ptrs limit num_memory ((st_sid + 1) mod num_memory)
      else Some st_sid)"

text \<open>
  One replica: node \<open>sid\<close> (an 8-bit value) gives the block under its cursor. The
  condition \<open>mn_addr_ptr[sid] & 0xFF != 0\<close> parses as \<open>mn_addr_ptr[sid] & 1\<close>.
\<close>

definition replica_sid :: "nat \<Rightarrow> nat \<Rightarrow> nat \<Rightarrow> nat" where
  "replica_sid num_memory st_sid i = (st_sid + i) mod 2 ^ 32 mod num_memory mod 256"

fun place_replicas ::
    "addr \<Rightarrow> 64 word \<Rightarrow> nat \<Rightarrow> nat \<Rightarrow> nat list \<Rightarrow> addr list \<Rightarrow> (addr list \<times> addr list) option" where
  "place_replicas limit block_size num_memory st_sid [] ptrs = Some ([], ptrs)"
| "place_replicas limit block_size num_memory st_sid (i # is) ptrs =
     (let sid = replica_sid num_memory st_sid i in
      if limit \<le> ptrs ! sid then None
      else if ptrs ! sid AND 1 \<noteq> 0 then None
      else do {
        (addrs, ptrs') \<leftarrow> place_replicas limit block_size num_memory st_sid is
                           (ptrs[sid := ptrs ! sid + block_size]);
        Some (ptrs ! sid # addrs, ptrs') })"

text \<open>The outer loop, on the number of blocks still to place.\<close>

fun place_blocks ::
    "ServerMM \<Rightarrow> nat \<Rightarrow> nat \<Rightarrow> addr list \<Rightarrow> addr list \<Rightarrow> addr list option" where
  "place_blocks s 0 block_cnt ptrs allocable = Some allocable"
| "place_blocks s (Suc n) block_cnt ptrs allocable =
     (let num_memory = unat (smm_num_memory s) in
      if num_memory = 0 then None
      else do {
        st_sid \<leftarrow> skip_full ptrs (smm_client_kv_area_limit s) num_memory (block_cnt mod num_memory);
        (addrs, ptrs') \<leftarrow> place_replicas (smm_client_kv_area_limit s) (ucast (smm_block_size s))
                           num_memory st_sid [0..<unat (smm_num_replication s)] ptrs;
        place_blocks s n (block_cnt + 1) ptrs'
          (if st_sid = unat (smm_my_sid s) then allocable @ [hd addrs] else allocable) })"

definition get_allocable_blocks :: "ServerMM \<Rightarrow> ServerMM option" where
  "get_allocable_blocks s =
     (if smm_num_replication s = 0 then None
      else do {
        let num_rep_blocks = (smm_num_blocks s * smm_num_memory s) div smm_num_replication s;
        bs \<leftarrow> place_blocks s (unat num_rep_blocks) 0
                (replicate (unat (smm_num_memory s)) (smm_base_addr s + smm_client_kv_area_off s))
                (smm_allocable_blocks s);
        Some (s\<lparr>smm_allocable_blocks := bs\<rparr>) })"

section \<open>Constructor\<close>

text \<open>
  \<open>rnd\<close> is the value of \<open>rand()\<close>, \<open>rkey\<close> the key of the registered region and \<open>m\<close>
  the freshly mapped memory.
\<close>

definition ServerMM_new ::
    "64 word \<Rightarrow> 32 word \<Rightarrow> GlobalConfig \<Rightarrow> mem \<Rightarrow> (ServerMM \<times> mem) option" where
  "ServerMM_new rnd rkey conf m =
     do {
       let block_size = (ucast (conf_block_size conf) :: 32 word);
       let base_len = conf_server_data_len conf;
       let base_addr = conf_server_base_addr conf;
       let meta_len = of_nat META_AREA_LEN;
       let gc_off = meta_len;
       let gc_len = of_nat GC_AREA_LEN;
       let hash_off = gc_off + gc_len;
       let hash_len = of_nat HASH_AREA_LEN;
       kv_off \<leftarrow> round_up (hash_off + hash_len) block_size;
       let kv_len = base_len - kv_off;
       let s = \<lparr>smm_my_sid = 0, smm_base_addr = base_addr, smm_base_len = base_len,
          smm_client_meta_area_off = 0, smm_client_meta_area_len = meta_len,
          smm_client_gc_area_off = gc_off, smm_client_gc_area_len = gc_len,
          smm_client_hash_area_off = hash_off, smm_client_hash_area_len = hash_len,
          smm_client_kv_area_off = kv_off, smm_client_kv_area_len = kv_len,
          smm_client_kv_area_limit = base_len + base_addr,
          smm_num_memory = 0, smm_num_replication = 0, smm_block_size = block_size,
          smm_num_blocks = 0, smm_rkey = rkey, smm_subtable_alloc_map = [],
          smm_allocable_blocks = [], smm_allocated_blocks = (\<lambda>_. False)\<rparr>;
       let (s, m) = init_hashtable rnd s m;
       let s = s\<lparr>smm_num_memory := conf_memory_num conf,
          smm_num_replication := conf_num_replication conf,
          smm_my_sid := ucast (conf_server_id conf),
          smm_num_blocks := ucast (kv_len div ucast block_size)\<rparr>;
       s \<leftarrow> get_allocable_blocks s;
       Some (s, m) }"

section \<open>Services\<close>

definition mm_alloc_srv :: "ServerMM \<Rightarrow> addr \<times> ServerMM" where
  "mm_alloc_srv s =
     (case smm_allocable_blocks s of
        [] \<Rightarrow> (0, s)
      | ret_addr # rest \<Rightarrow>
          (ret_addr, s\<lparr>smm_allocable_blocks := rest,
                       smm_allocated_blocks := (smm_allocated_blocks s)(ret_addr := True)\<rparr>))"

definition mm_free_srv :: "addr \<Rightarrow> ServerMM \<Rightarrow> int \<times> ServerMM" where
  "mm_free_srv st_addr s =
     (if smm_allocated_blocks s st_addr \<noteq> True then (-1, s)
      else (0, s\<lparr>smm_allocated_blocks := (smm_allocated_blocks s)(st_addr := False),
                 smm_allocable_blocks := smm_allocable_blocks s @ [st_addr]\<rparr>))"

text \<open>The first free entry of the subtable map, if there is one.\<close>

fun first_free_subtable :: "nat \<Rightarrow> bool list \<Rightarrow> nat option" where
  "first_free_subtable i [] = None"
| "first_free_subtable i (b # bs) = (if \<not> b then Some i else first_free_subtable (i + 1) bs)"

definition mm_alloc_subtable_srv :: "ServerMM \<Rightarrow> addr \<times> ServerMM" where
  "mm_alloc_subtable_srv s =
     (let subtable_st_addr = smm_base_addr s + smm_client_hash_area_off s
             + roundup_256 (of_nat ROOT_RES_LEN)
      in case first_free_subtable 0 (smm_subtable_alloc_map s) of
           None \<Rightarrow> (0, s)
         | Some i \<Rightarrow> (subtable_st_addr + of_nat i * roundup_256 (of_nat SUBTABLE_LEN),
                      s\<lparr>smm_subtable_alloc_map := (smm_subtable_alloc_map s)[i := True]\<rparr>))"

definition get_rkey :: "ServerMM \<Rightarrow> 32 word" where
  "get_rkey s = smm_rkey s"

definition get_client_gc_info :: "32 word \<Rightarrow> ServerMM \<Rightarrow> MrInfo option" where
  "get_client_gc_info client_id s =
     (let single_gc_len = 1024 * 1024;
          client_gc_off = ucast client_id * single_gc_len
      in if smm_client_gc_area_len s \<le> client_gc_off + single_gc_len then None
         else Some \<lparr>mr_addr = smm_client_gc_area_off s + client_gc_off + smm_base_addr s,
                    mr_rkey = smm_rkey s\<rparr>)"

definition get_mr_info :: "ServerMM \<Rightarrow> MrInfo" where
  "get_mr_info s = \<lparr>mr_addr = smm_base_addr s, mr_rkey = smm_rkey s\<rparr>"

section \<open>The block queue is a FIFO pool\<close>

text \<open>Address 0 in a reply means that the node has no space.\<close>

definition srv_alloc :: "ServerMM \<Rightarrow> (addr \<times> ServerMM) option" where
  "srv_alloc s = (case mm_alloc_srv s of (a, s') \<Rightarrow> if a = 0 then None else Some (a, s'))"

definition srv_release :: "addr \<Rightarrow> ServerMM \<Rightarrow> ServerMM option" where
  "srv_release a s = (case mm_free_srv a s of (r, s') \<Rightarrow> if r = 0 then Some s' else None)"

definition srv_taken :: "ServerMM \<Rightarrow> addr set" where
  "srv_taken s = {a. smm_allocated_blocks s a}"

definition srv_inv :: "ServerMM \<Rightarrow> bool" where
  "srv_inv s \<longleftrightarrow> distinct (smm_allocable_blocks s) \<and> 0 \<notin> set (smm_allocable_blocks s)
     \<and> 0 \<notin> srv_taken s \<and> set (smm_allocable_blocks s) \<inter> srv_taken s = {}"

lemma srv_alloc_Some:
  "srv_inv s \<Longrightarrow> srv_alloc s = Some (a, s') \<longleftrightarrow>
     (\<exists>rest. smm_allocable_blocks s = a # rest \<and>
        s' = s\<lparr>smm_allocable_blocks := rest,
               smm_allocated_blocks := (smm_allocated_blocks s)(a := True)\<rparr>)"
  by (auto simp: srv_alloc_def mm_alloc_srv_def srv_inv_def split: list.splits if_splits)

lemma srv_release_Some:
  "srv_release a s = Some s' \<longleftrightarrow> a \<in> srv_taken s \<and>
     s' = s\<lparr>smm_allocated_blocks := (smm_allocated_blocks s)(a := False),
            smm_allocable_blocks := smm_allocable_blocks s @ [a]\<rparr>"
  by (auto simp: srv_release_def mm_free_srv_def srv_taken_def)

interpretation srv: fifo_pool srv_alloc srv_taken srv_inv srv_release smm_allocable_blocks
proof
  fix s b s' assume inv: "srv_inv s" and a: "srv_alloc s = Some (b, s')"
  then obtain rest where r: "smm_allocable_blocks s = b # rest"
    "s' = s\<lparr>smm_allocable_blocks := rest, smm_allocated_blocks := (smm_allocated_blocks s)(b := True)\<rparr>"
    by (auto simp: srv_alloc_Some)
  show "b \<notin> srv_taken s" using inv r by (auto simp: srv_inv_def)
  show t: "srv_taken s' = insert b (srv_taken s)" using r by (auto simp: srv_taken_def)
  show "srv_inv s'" using inv r t by (auto simp: srv_inv_def)
  show "smm_allocable_blocks s = b # smm_allocable_blocks s'" using r by simp
next
  fix s assume "srv_inv s" "smm_allocable_blocks s \<noteq> []"
  then show "srv_alloc s \<noteq> None"
    by (auto simp: srv_alloc_def mm_alloc_srv_def srv_inv_def split: list.splits)
next
  fix s b show "srv_release b s \<noteq> None \<longleftrightarrow> b \<in> srv_taken s"
    using srv_release_Some [of b s] by fastforce
next
  fix s b s' assume inv: "srv_inv s" and a: "srv_release b s = Some s'"
  then have b: "b \<in> srv_taken s"
    and s': "s' = s\<lparr>smm_allocated_blocks := (smm_allocated_blocks s)(b := False),
      smm_allocable_blocks := smm_allocable_blocks s @ [b]\<rparr>"
    by (simp_all add: srv_release_Some)
  have t: "srv_taken s' = srv_taken s - {b}" using s' by (auto simp: srv_taken_def)
  moreover have "srv_inv s'" unfolding srv_inv_def t using inv b s' by (auto simp: srv_inv_def)
  ultimately show "srv_taken s' = srv_taken s - {b} \<and>
      smm_allocable_blocks s' = smm_allocable_blocks s @ [b] \<and> srv_inv s'"
    using s' by simp
qed

section \<open>Subtables\<close>

lemma first_free_subtable_Some:
  "first_free_subtable k bs = Some i \<Longrightarrow>
     \<exists>j. i = k + j \<and> j < length bs \<and> \<not> bs ! j \<and> (\<forall>l<j. bs ! l)"
proof (induction k bs rule: first_free_subtable.induct)
  case (2 k b bs)
  show ?case
  proof (cases b)
    case True
    with 2 obtain j where "i = k + 1 + j" "j < length bs" "\<not> bs ! j" "\<forall>l<j. bs ! l" by auto
    then show ?thesis using True by (intro exI [of _ "Suc j"]) (simp add: All_less_Suc2)
  qed (use 2 in \<open>auto intro!: exI [of _ 0]\<close>)
qed simp

lemma first_free_subtable_None:
  "first_free_subtable k bs = None \<longleftrightarrow> (\<forall>b \<in> set bs. b)"
  by (induction k bs rule: first_free_subtable.induct) auto

lemma subtable_stride: "roundup_256 (of_nat SUBTABLE_LEN) = 2176000"
  by (simp add: roundup_256_def race_consts)

lemma root_room: "roundup_256 (of_nat ROOT_RES_LEN) = 2816"
  by (simp add: roundup_256_def race_consts)

section \<open>Replica placement in closed form\<close>

text \<open>
  As long as no cursor overruns, round \<open>r\<close> takes one block from each of the nodes
  \<open>r mod n, \<dots>, (r + k - 1) mod n\<close> for \<open>n\<close> nodes and \<open>k\<close> replicas. \<open>uses\<close> says that a
  round touches a node and \<open>cursor\<close> counts the rounds before \<open>r\<close> that did.
\<close>

definition uses :: "nat \<Rightarrow> nat \<Rightarrow> nat \<Rightarrow> nat \<Rightarrow> bool" where
  "uses n k r s \<longleftrightarrow> (\<exists>i<k. (r mod n + i) mod n = s)"

primrec cursor :: "nat \<Rightarrow> nat \<Rightarrow> nat \<Rightarrow> nat \<Rightarrow> nat" where
  "cursor n k 0 s = 0"
| "cursor n k (Suc r) s = cursor n k r s + (if uses n k r s then 1 else 0)"

lemma add_mod_inj:
  assumes "(a + i) mod n = (a + j) mod n" "i < n" "j < (n :: nat)"
  shows "i = j"
proof -
  have "i = j" if "(a + i) mod n = (a + j) mod n" "i \<le> j" "j < n" for i j
  proof -
    have "n dvd (a + j) - (a + i)"
      using that mod_eq_dvd_iff_nat [of "a + i" "a + j" n] by simp
    then have "n dvd j - i" by simp
    then show "i = j" using that(2,3) by (auto dest: dvd_imp_le)
  qed
  with assms show ?thesis by (metis nat_le_linear)
qed

lemma cursor_mono: "r \<le> r' \<Longrightarrow> cursor n k r s \<le> cursor n k r' s"
  by (induction r' rule: nat_induct) (auto simp: le_Suc_eq)

lemma cursor_card: "cursor n k r s = card {q. q < r \<and> uses n k q s}"
proof (induction r)
  case (Suc r)
  have "{q. q < Suc r \<and> uses n k q s} =
     (if uses n k r s then insert r {q. q < r \<and> uses n k q s} else {q. q < r \<and> uses n k q s})"
    by (auto simp: less_Suc_eq)
  then show ?case using Suc by simp
qed simp

lemma uses_cycle: "0 < n \<Longrightarrow> uses n k (n * c + r) s = uses n k r s"
  by (simp add: uses_def)

lemma cursor_add:
  "0 < n \<Longrightarrow> cursor n k (n * c + r) s = cursor n k (n * c) s + cursor n k r s"
  by (induction r) (simp_all add: uses_cycle)

lemma uses_iff_back:
  assumes "r < n" "s < n" "k \<le> n"
  shows "uses n k r s \<longleftrightarrow> (\<exists>i<k. r = (s + (n - i)) mod n)"
proof
  assume "uses n k r s"
  then obtain i where i: "i < k" "(r + i) mod n = s" using assms by (auto simp: uses_def)
  have "(s + (n - i)) mod n = (r + i + (n - i)) mod n" using i(2) by (metis mod_add_left_eq)
  also have "\<dots> = (r + n) mod n" using i(1) assms(3) by simp
  finally show "\<exists>i<k. r = (s + (n - i)) mod n" using i(1) assms(1) by auto
next
  assume "\<exists>i<k. r = (s + (n - i)) mod n"
  then obtain i where i: "i < k" "r = (s + (n - i)) mod n" by auto
  have "(r + i) mod n = (s + (n - i) + i) mod n" using i(2) by (metis mod_add_left_eq)
  also have "\<dots> = s" using i(1) assms by simp
  finally show "uses n k r s" using i(1) assms by (auto simp: uses_def)
qed

lemma cursor_one_cycle:
  assumes "s < n" "k \<le> n"
  shows "cursor n k n s = k"
proof -
  have "{q. q < n \<and> uses n k q s} = (\<lambda>i. (s + (n - i)) mod n) ` {..<k}"
    using assms by (fastforce simp: uses_iff_back)
  moreover have "inj_on (\<lambda>i. (s + (n - i)) mod n) {..<k}"
  proof (rule inj_onI)
    fix i j assume ij: "i \<in> {..<k}" "j \<in> {..<k}" "(s + (n - i)) mod n = (s + (n - j)) mod n"
    show "i = j"
    proof (cases "i = 0 \<or> j = 0")
      case True
      have "(s + (n - i)) mod n = s \<longleftrightarrow> i = 0" if "i < k" for i
      proof (cases "i = 0")
        case False
        then have "(s + (n - i)) mod n = (s + 0) mod n \<longrightarrow> n - i = 0"
          using add_mod_inj [of s "n - i" n 0] that assms by auto
        then show ?thesis using False that assms by simp
      qed (use assms in simp)
      then show ?thesis using True ij by (metis lessThan_iff)
    next
      case False
      then have "n - i = n - j" using add_mod_inj [of s "n - i" n "n - j"] ij assms by auto
      then show ?thesis using ij assms by auto
    qed
  qed
  ultimately show ?thesis by (simp add: cursor_card card_image)
qed

lemma cursor_cycles:
  assumes "s < n" "k \<le> n"
  shows "cursor n k (n * c) s = k * c"
proof (induction c)
  case (Suc c)
  have "cursor n k (n * Suc c) s = cursor n k (n * c) s + cursor n k n s"
    using cursor_add [of n k c n s] assms by (simp add: add.commute)
  then show ?case using Suc assms by (simp add: cursor_one_cycle)
qed simp

text \<open>The blocks of which a node is the primary: every \<open>k\<close>-th one after the first.\<close>

lemma cursor_primary:
  assumes "s < n" "k \<le> n" "0 < k"
  shows "cursor n k (n * c + s) s = k * c + min s (k - 1)"
proof -
  have *: "cursor n k r s = min s (k - 1) - min (s - r) (k - 1)" if "r \<le> s" for r
    using that
  proof (induction r)
    case (Suc r)
    have "uses n k r s \<longleftrightarrow> s - r < k"
    proof
      assume "uses n k r s"
      then obtain i where i: "i < k" "(r + i) mod n = s" using Suc assms by (auto simp: uses_def)
      moreover have "(r + (s - r)) mod n = s" using Suc assms by simp
      ultimately have "i = s - r" using add_mod_inj [of r i n "s - r"] assms by simp
      then show "s - r < k" using i by simp
    next
      assume "s - r < k" then show "uses n k r s"
        using Suc assms by (auto simp: uses_def intro!: exI [of _ "s - r"])
    qed
    then show ?case using Suc by auto
  qed simp
  show ?thesis using cursor_add [of n k c s s] cursor_cycles [of s n k c] *[of s] assms by simp
qed

lemma place_replicas_ok:
  assumes "distinct (map (replica_sid n st) js)"
    and "\<forall>i \<in> set js. replica_sid n st i < length ptrs"
    and "\<forall>i \<in> set js. ptrs ! replica_sid n st i < limit \<and> ptrs ! replica_sid n st i AND 1 = 0"
  shows "place_replicas limit bs n st js ptrs =
     Some (map (\<lambda>i. ptrs ! replica_sid n st i) js,
           map (\<lambda>s. if s \<in> replica_sid n st ` set js then ptrs ! s + bs else ptrs ! s)
             [0..<length ptrs])"
  using assms
proof (induction js arbitrary: ptrs)
  case (Cons i js)
  let ?g = "replica_sid n st"
  let ?ptrs = "ptrs[?g i := ptrs ! ?g i + bs]"
  have "?g i \<notin> ?g ` set js" using Cons.prems(1) by simp
  then have ne: "?g i \<noteq> ?g j" if "j \<in> set js" for j using that by blast
  have "place_replicas limit bs n st js ?ptrs =
     Some (map (\<lambda>i. ?ptrs ! ?g i) js,
           map (\<lambda>s. if s \<in> ?g ` set js then ?ptrs ! s + bs else ?ptrs ! s) [0..<length ?ptrs])"
    by (rule Cons.IH) (use Cons.prems ne in auto)
  moreover have "map (\<lambda>i. ?ptrs ! ?g i) js = map (\<lambda>i. ptrs ! ?g i) js"
    using ne by auto
  moreover have "map (\<lambda>s. if s \<in> ?g ` set js then ?ptrs ! s + bs else ?ptrs ! s) [0..<length ?ptrs]
     = map (\<lambda>s. if s \<in> ?g ` set (i # js) then ptrs ! s + bs else ptrs ! s) [0..<length ptrs]"
  proof (rule map_cong)
    fix t assume "t \<in> set [0..<length ptrs]"
    then show "(if t \<in> ?g ` set js then ?ptrs ! t + bs else ?ptrs ! t) =
       (if t \<in> ?g ` set (i # js) then ptrs ! t + bs else ptrs ! t)"
      using \<open>?g i \<notin> ?g ` set js\<close> by (cases "t = ?g i") simp_all
  qed simp
  moreover have "\<not> limit \<le> ptrs ! ?g i" "ptrs ! ?g i AND 1 = 0" using Cons.prems(3) by auto
  ultimately show ?case by (simp add: Let_def)
qed (simp add: map_nth)

lemma replica_sid_eq:
  "0 < n \<Longrightarrow> n \<le> 256 \<Longrightarrow> st + i < 2 ^ 32 \<Longrightarrow> replica_sid n st i = (st + i) mod n"
proof -
  assume h: "0 < n" "n \<le> 256" "st + i < 2 ^ 32"
  then have "(st + i) mod n < 256" using mod_less_divisor [of n "st + i"] by linarith
  then show ?thesis using h(3) by (simp add: replica_sid_def)
qed

text \<open>Configurations in which the placement fills every node exactly.\<close>

definition placement_fits :: "ServerMM \<Rightarrow> bool" where
  "placement_fits s \<longleftrightarrow>
     (let n = unat (smm_num_memory s); k = unat (smm_num_replication s);
          b = unat (smm_num_blocks s); bs = unat (smm_block_size s);
          kv = smm_base_addr s + smm_client_kv_area_off s
      in 0 < k \<and> k \<le> n \<and> n \<le> 256 \<and> k dvd b \<and> 0 < bs \<and> even bs \<and> even (unat kv)
         \<and> n * b < 2 ^ 32 \<and> unat kv + b * bs = unat (smm_client_kv_area_limit s))"

definition kv_block :: "ServerMM \<Rightarrow> nat \<Rightarrow> addr" where
  "kv_block s c = smm_base_addr s + smm_client_kv_area_off s + of_nat (unat (smm_block_size s) * c)"

lemma unat_kv_block:
  assumes "placement_fits s" "c \<le> unat (smm_num_blocks s)"
  shows "unat (kv_block s c) = unat (smm_base_addr s + smm_client_kv_area_off s) + unat (smm_block_size s) * c"
proof -
  let ?kv = "smm_base_addr s + smm_client_kv_area_off s"
  have "unat (smm_block_size s) * c \<le> unat (smm_num_blocks s) * unat (smm_block_size s)"
    using assms(2) by (simp add: mult.commute mult_le_mono)
  moreover have "unat ?kv + unat (smm_num_blocks s) * unat (smm_block_size s) < 2 ^ 64"
    using assms(1) unsigned_less [of "smm_client_kv_area_limit s"]
    by (simp add: placement_fits_def Let_def)
  ultimately have "unat ?kv + unat (smm_block_size s) * c < 2 ^ 64" by linarith
  then show ?thesis
    unfolding kv_block_def
    by (simp add: unat_word_ariths(1) [of ?kv] unsigned_of_nat take_bit_nat_eq_self del: of_nat_mult)
qed

lemma and1_even: "w AND 1 = 0 \<longleftrightarrow> even (unat (w :: 64 word))"
  by (simp add: and_one_eq even_iff_mod_2_eq_zero unat_mod_distrib flip: unat_eq_0)

lemma kv_block_ok:
  assumes "placement_fits s" "c < unat (smm_num_blocks s)"
  shows "kv_block s c < smm_client_kv_area_limit s" "kv_block s c AND 1 = 0"
proof -
  have u: "unat (kv_block s c) = unat (smm_base_addr s + smm_client_kv_area_off s) + unat (smm_block_size s) * c"
    using assms by (simp add: unat_kv_block)
  have "unat (smm_block_size s) * c < unat (smm_num_blocks s) * unat (smm_block_size s)"
    using assms by (simp add: placement_fits_def Let_def mult.commute)
  moreover have "unat (smm_base_addr s + smm_client_kv_area_off s)
     + unat (smm_num_blocks s) * unat (smm_block_size s) = unat (smm_client_kv_area_limit s)"
    using assms(1) by (simp add: placement_fits_def Let_def)
  ultimately have "unat (kv_block s c) < unat (smm_client_kv_area_limit s)" using u by linarith
  then show "kv_block s c < smm_client_kv_area_limit s" by (simp add: word_less_nat_alt)
  show "kv_block s c AND 1 = 0"
    using assms(1) u by (simp add: placement_fits_def Let_def and1_even)
qed

lemma place_blocks_closed:
  assumes fits: "placement_fits s"
    and n: "n = unat (smm_num_memory s)" and k: "k = unat (smm_num_replication s)"
    and "r + m \<le> n * (unat (smm_num_blocks s) div k)"
  shows "place_blocks s m r (map (\<lambda>t. kv_block s (cursor n k r t)) [0..<n]) acc =
     Some (acc @ map (\<lambda>q. kv_block s (cursor n k q (unat (smm_my_sid s))))
                   (filter (\<lambda>q. q mod n = unat (smm_my_sid s)) [r..<r + m]))"
  using assms(4)
proof (induction m arbitrary: r acc)
  case (Suc m)
  let ?b = "unat (smm_num_blocks s)" and ?limit = "smm_client_kv_area_limit s"
  let ?ptrs = "map (\<lambda>t. kv_block s (cursor n k r t)) [0..<n]"
  let ?st = "r mod n"
  have dims: "0 < k" "k \<le> n" "n \<le> 256" "0 < n" "k dvd ?b"
    using fits by (auto simp: placement_fits_def Let_def n k)
  have room: "cursor n k r t < ?b" if "uses n k r t" "t < n" for t
  proof -
    have "cursor n k (Suc r) t \<le> cursor n k (n * (?b div k)) t"
      using Suc.prems by (intro cursor_mono) simp
    then show ?thesis using that dims cursor_cycles [of t n k "?b div k"] by simp
  qed
  have st: "?st < n" "uses n k r ?st" using dims by (auto simp: uses_def intro!: exI [of _ 0])
  have "?ptrs ! ?st \<noteq> ?limit"
    using kv_block_ok(1) [OF fits room [OF st(2,1)]] st(1) by auto
  then have skip: "skip_full ?ptrs ?limit n ?st = Some ?st"
    by (subst skip_full.simps) simp
  have sid: "replica_sid n ?st i = (?st + i) mod n" if "i < k" for i
  proof (rule replica_sid_eq)
    have "?st + i < 512" using that st(1) dims by linarith
    then show "?st + i < 2 ^ 32" by simp
  qed (use dims in simp_all)
  have used: "replica_sid n ?st ` set [0..<k] = {t. uses n k r t}"
  proof (intro set_eqI iffI)
    fix t assume "t \<in> replica_sid n ?st ` set [0..<k]"
    then obtain i where "i < k" "t = replica_sid n ?st i" by auto
    then have "i < k \<and> (?st + i) mod n = t" using sid [of i] by simp
    then show "t \<in> {t. uses n k r t}" unfolding uses_def mem_Collect_eq by (rule exI)
  next
    fix t assume "t \<in> {t. uses n k r t}"
    then obtain i where "i < k" "(?st + i) mod n = t" unfolding uses_def by auto
    then have "i < k" "t = replica_sid n ?st i" using sid [of i] by simp_all
    then show "t \<in> replica_sid n ?st ` set [0..<k]" by simp
  qed
  have place: "place_replicas ?limit (ucast (smm_block_size s)) n ?st [0..<k] ?ptrs =
     Some (map (\<lambda>i. ?ptrs ! replica_sid n ?st i) [0..<k],
           map (\<lambda>t. if t \<in> replica_sid n ?st ` set [0..<k]
                     then ?ptrs ! t + ucast (smm_block_size s) else ?ptrs ! t) [0..<length ?ptrs])"
  proof (intro place_replicas_ok ballI)
    show "distinct (map (replica_sid n ?st) [0..<k])"
    proof (simp add: distinct_map, rule inj_onI)
      fix i j assume ij: "i \<in> {0..<k}" "j \<in> {0..<k}" "replica_sid n ?st i = replica_sid n ?st j"
      show "i = j" by (rule add_mod_inj [of ?st i n j]) (use ij sid dims in simp_all)
    qed
  next
    fix i assume "i \<in> set [0..<k]"
    then have i: "i < k" by simp
    show lt: "replica_sid n ?st i < length ?ptrs" using sid [OF i] dims by simp
    have "uses n k r (replica_sid n ?st i)" using used i by auto
    from kv_block_ok [OF fits room [OF this]] lt
    show "?ptrs ! replica_sid n ?st i < ?limit \<and> ?ptrs ! replica_sid n ?st i AND 1 = 0" by simp
  qed
  have step: "map (\<lambda>t. if t \<in> replica_sid n ?st ` set [0..<k]
                     then ?ptrs ! t + ucast (smm_block_size s) else ?ptrs ! t) [0..<length ?ptrs]
     = map (\<lambda>t. kv_block s (cursor n k (Suc r) t)) [0..<n]"
    unfolding used by (rule map_cong) (auto simp: kv_block_def algebra_simps)
  have hd: "hd (map (\<lambda>i. ?ptrs ! replica_sid n ?st i) [0..<k]) = kv_block s (cursor n k r ?st)"
    using dims st sid [of 0] by (simp add: hd_map)
  have "place_blocks s (Suc m) r ptrs acc = place_blocks s m (Suc r) ptrs'
       (if ?st = unat (smm_my_sid s) then acc @ [hd addrs] else acc)"
    if "skip_full ptrs ?limit n ?st = Some ?st"
      "place_replicas ?limit (ucast (smm_block_size s)) n ?st [0..<k] ptrs = Some (addrs, ptrs')"
    for ptrs ptrs' addrs
    using that dims(4) by (simp flip: n k)
  from this [OF skip place] have "place_blocks s (Suc m) r ?ptrs acc =
     place_blocks s m (Suc r) (map (\<lambda>t. kv_block s (cursor n k (Suc r) t)) [0..<n])
       (if ?st = unat (smm_my_sid s) then acc @ [kv_block s (cursor n k r ?st)] else acc)"
    unfolding step hd .
  also have "\<dots> = Some ((if ?st = unat (smm_my_sid s) then acc @ [kv_block s (cursor n k r ?st)] else acc)
     @ map (\<lambda>q. kv_block s (cursor n k q (unat (smm_my_sid s))))
          (filter (\<lambda>q. q mod n = unat (smm_my_sid s)) [Suc r..<Suc r + m]))"
    using Suc.prems by (intro Suc.IH) simp
  finally have "place_blocks s (Suc m) r ?ptrs acc = \<dots>" .
  moreover have "[r..<r + Suc m] = r # [Suc r..<Suc r + m]" by (simp add: upt_conv_Cons)
  ultimately show ?case by (cases "?st = unat (smm_my_sid s)") simp_all
qed simp

lemma filter_mod_upt:
  "my < n \<Longrightarrow> filter (\<lambda>q. q mod n = my) [0..<n * c] = map (\<lambda>j. n * j + my) [0..<c]"
proof (induction c)
  case (Suc c)
  have "filter (\<lambda>q. q mod n = my) [n * c..<n * c + n] = [n * c + my]"
  proof -
    have "[n * c..<n * c + n] = map (\<lambda>i. n * c + i) [0..<n]"
      using map_add_upt [of "n * c" n] by (simp add: add.commute)
    then have "filter (\<lambda>q. q mod n = my) [n * c..<n * c + n] =
       map (\<lambda>i. n * c + i) (filter (\<lambda>i. i = my) [0..<n])"
      by (auto simp: filter_map o_def intro!: filter_cong)
    also have "filter (\<lambda>i. i = my) [0..<n] = [my]"
      using Suc.prems by (induction n) (auto simp: less_Suc_eq filter_empty_conv)
    finally show ?thesis by simp
  qed
  then show ?case using Suc upt_add_eq_append [of 0 "n * c" n] by (simp add: add.commute)
qed simp

lemma get_allocable_blocks_closed:
  assumes fits: "placement_fits s" and my: "unat (smm_my_sid s) < unat (smm_num_memory s)"
    and fresh: "smm_allocable_blocks s = []"
  defines "k \<equiv> unat (smm_num_replication s)"
  shows "get_allocable_blocks s = Some (s\<lparr>smm_allocable_blocks :=
     map (\<lambda>j. kv_block s (k * j + min (unat (smm_my_sid s)) (k - 1)))
       [0..<unat (smm_num_blocks s) div k]\<rparr>)"
proof -
  let ?n = "unat (smm_num_memory s)" and ?b = "unat (smm_num_blocks s)" and ?my = "unat (smm_my_sid s)"
  have d: "0 < k" "k \<le> ?n" "k dvd ?b" "?n * ?b < 2 ^ 32"
    using fits by (auto simp: placement_fits_def Let_def k_def)
  have "unat (smm_num_blocks s * smm_num_memory s) = ?n * ?b"
    using d(4) by (simp add: unat_word_ariths mult.commute)
  then have total: "unat ((smm_num_blocks s * smm_num_memory s) div smm_num_replication s) = ?n * (?b div k)"
    using d(3) by (simp add: unat_div_distrib div_mult_swap flip: k_def)
  have start: "replicate ?n (smm_base_addr s + smm_client_kv_area_off s)
     = map (\<lambda>t. kv_block s (cursor ?n k 0 t)) [0..<?n]"
    by (simp add: kv_block_def map_replicate_const)
  have "place_blocks s (?n * (?b div k)) 0 (map (\<lambda>t. kv_block s (cursor ?n k 0 t)) [0..<?n]) [] =
     Some (map (\<lambda>q. kv_block s (cursor ?n k q ?my)) (filter (\<lambda>q. q mod ?n = ?my) [0..<?n * (?b div k)]))"
    using place_blocks_closed [OF fits refl refl, of 0 "?n * (?b div k)" "[]"] by (simp add: k_def)
  also have "map (\<lambda>q. kv_block s (cursor ?n k q ?my)) (filter (\<lambda>q. q mod ?n = ?my) [0..<?n * (?b div k)])
     = map (\<lambda>j. kv_block s (k * j + min ?my (k - 1))) [0..<?b div k]"
    using my d by (simp add: filter_mod_upt cursor_primary)
  finally have "place_blocks s (?n * (?b div k)) 0
      (replicate ?n (smm_base_addr s + smm_client_kv_area_off s)) [] =
     Some (map (\<lambda>j. kv_block s (k * j + min ?my (k - 1))) [0..<?b div k])"
    unfolding start .
  moreover have "smm_num_replication s \<noteq> 0" using d(1) by (auto simp: k_def)
  ultimately show ?thesis using fresh by (simp add: get_allocable_blocks_def Let_def total)
qed

lemma primary_index_bound:
  assumes "placement_fits s" "j < unat (smm_num_blocks s) div unat (smm_num_replication s)"
  shows "unat (smm_num_replication s) * j + min (unat (smm_my_sid s)) (unat (smm_num_replication s) - 1)
    < unat (smm_num_blocks s)"
proof -
  let ?k = "unat (smm_num_replication s)" and ?b = "unat (smm_num_blocks s)"
  have k: "0 < ?k" "?k dvd ?b" using assms(1) by (auto simp: placement_fits_def Let_def)
  have "?k * Suc j \<le> ?k * (?b div ?k)" using assms(2) by (intro mult_le_mono) auto
  then have "?k * j + ?k \<le> ?b" using k by simp
  then show ?thesis using k(1) by linarith
qed

lemma kv_block_inj:
  assumes "placement_fits s" "c \<le> unat (smm_num_blocks s)" "d \<le> unat (smm_num_blocks s)"
  shows "kv_block s c = kv_block s d \<longleftrightarrow> c = d"
proof
  assume "kv_block s c = kv_block s d"
  then have "unat (kv_block s c) = unat (kv_block s d)" by simp
  then have "unat (smm_block_size s) * c = unat (smm_block_size s) * d"
    using assms by (simp add: unat_kv_block)
  then show "c = d" using assms(1) by (simp add: placement_fits_def Let_def)
qed simp

lemma primary_blocks_inj:
  assumes fits: "placement_fits s"
  defines "k \<equiv> unat (smm_num_replication s)"
  shows "inj_on (\<lambda>j. kv_block s (k * j + min (unat (smm_my_sid s)) (k - 1))) {0..<unat (smm_num_blocks s) div k}"
proof (rule inj_onI)
  let ?idx = "\<lambda>j. k * j + min (unat (smm_my_sid s)) (k - 1)"
  have k: "0 < k" using fits by (auto simp: placement_fits_def Let_def k_def)
  fix i j assume ij: "i \<in> {0..<unat (smm_num_blocks s) div k}" "j \<in> {0..<unat (smm_num_blocks s) div k}"
    "kv_block s (?idx i) = kv_block s (?idx j)"
  then have "?idx i = ?idx j"
    using primary_index_bound [OF fits] kv_block_inj [OF fits, of "?idx i" "?idx j"] by (simp add: less_imp_le k_def)
  then show "i = j" using k by simp
qed

text \<open>A fresh node starts with a well-formed pool.\<close>

lemma get_allocable_blocks_inv:
  assumes fits: "placement_fits s" and my: "unat (smm_my_sid s) < unat (smm_num_memory s)"
    and fresh: "smm_allocable_blocks s = []" "smm_allocated_blocks s = (\<lambda>_. False)"
    and pos: "smm_base_addr s + smm_client_kv_area_off s \<noteq> 0"
    and s': "get_allocable_blocks s = Some s'"
  shows "srv_inv s'"
proof -
  let ?k = "unat (smm_num_replication s)" and ?my = "unat (smm_my_sid s)"
  let ?idx = "\<lambda>j. ?k * j + min ?my (?k - 1)"
  let ?bs = "map (\<lambda>j. kv_block s (?idx j)) [0..<unat (smm_num_blocks s) div ?k]"
  have eq: "s' = s\<lparr>smm_allocable_blocks := ?bs\<rparr>"
    using get_allocable_blocks_closed [OF fits my fresh(1)] s' by simp
  have "inj_on (\<lambda>j. kv_block s (?idx j)) (set [0..<unat (smm_num_blocks s) div ?k])"
    unfolding set_upt by (rule primary_blocks_inj [OF fits])
  then have "distinct ?bs" by (simp only: distinct_map distinct_upt simp_thms)
  moreover have "0 \<notin> set ?bs"
  proof
    assume "0 \<in> set ?bs"
    then obtain j where j: "j < unat (smm_num_blocks s) div ?k" "kv_block s (?idx j) = 0" by auto
    then have "unat (smm_base_addr s + smm_client_kv_area_off s) = 0"
      using unat_kv_block [OF fits, of "?idx j"] primary_index_bound [OF fits j(1)] by simp
    then show False using pos unat_eq_0 by blast
  qed
  ultimately show ?thesis using fresh(2) by (simp add: eq srv_inv_def srv_taken_def)
qed

section \<open>Properties\<close>

text \<open>A node of three with two replicas and four blocks of 4 KB.\<close>

definition node_demo :: ServerMM where
  "node_demo = \<lparr>smm_my_sid = 1, smm_base_addr = 0x10000, smm_base_len = 0x5000,
     smm_client_meta_area_off = 0, smm_client_meta_area_len = 0, smm_client_gc_area_off = 0,
     smm_client_gc_area_len = 0, smm_client_hash_area_off = 0, smm_client_hash_area_len = 0x1000,
     smm_client_kv_area_off = 0x1000, smm_client_kv_area_len = 0x4000, smm_client_kv_area_limit = 0x15000,
     smm_num_memory = 3, smm_num_replication = 2, smm_block_size = 0x1000, smm_num_blocks = 4, smm_rkey = 0,
     smm_subtable_alloc_map = [False, False], smm_allocable_blocks = [], smm_allocated_blocks = (\<lambda>_. False)\<rparr>"

lemma node_demo_fits:
  "placement_fits node_demo" "unat (smm_my_sid node_demo) < unat (smm_num_memory node_demo)"
  "smm_allocable_blocks node_demo = []" "smm_allocated_blocks node_demo = (\<lambda>_. False)"
  "smm_base_addr node_demo + smm_client_kv_area_off node_demo \<noteq> 0"
  by (simp_all add: placement_fits_def node_demo_def)

lemma kv_block_region:
  assumes "placement_fits s" "c < unat (smm_num_blocks s)"
  shows "smm_base_addr s + smm_client_kv_area_off s \<le> kv_block s c"
    and "unat (kv_block s c) + unat (smm_block_size s) \<le> unat (smm_client_kv_area_limit s)"
proof -
  have u: "unat (kv_block s c) = unat (smm_base_addr s + smm_client_kv_area_off s) + unat (smm_block_size s) * c"
    by (rule unat_kv_block [OF assms(1) less_imp_le [OF assms(2)]])
  show "smm_base_addr s + smm_client_kv_area_off s \<le> kv_block s c" by (simp add: word_le_nat_alt u)
  have "unat (smm_block_size s) * (c + 1) \<le> unat (smm_block_size s) * unat (smm_num_blocks s)"
    using assms(2) by (intro mult_le_mono) simp_all
  then show "unat (kv_block s c) + unat (smm_block_size s) \<le> unat (smm_client_kv_area_limit s)"
    using assms(1) by (simp add: u placement_fits_def Let_def algebra_simps)
qed

text \<open>
  C7. When the number of blocks is a multiple of the replication
  factor, the placement loop of a memory node ends without an error exit. The node
  then offers its share of the primary blocks, one per round: they are distinct, whole
  blocks inside the key-value area.
\<close>

theorem server_blocks_placed:
  assumes fits: "placement_fits s" and my: "unat (smm_my_sid s) < unat (smm_num_memory s)"
    and fresh: "smm_allocable_blocks s = []"
  shows "\<exists>s'. get_allocable_blocks s = Some s' \<and>
     length (smm_allocable_blocks s') = unat (smm_num_blocks s) div unat (smm_num_replication s) \<and>
     distinct (smm_allocable_blocks s') \<and>
     (\<forall>a \<in> set (smm_allocable_blocks s'). smm_base_addr s + smm_client_kv_area_off s \<le> a \<and>
        unat a + unat (smm_block_size s) \<le> unat (smm_client_kv_area_limit s))"
proof -
  let ?k = "unat (smm_num_replication s)" and ?my = "unat (smm_my_sid s)"
  let ?idx = "\<lambda>j. ?k * j + min ?my (?k - 1)"
  note closed = get_allocable_blocks_closed [OF fits my fresh]
  have "inj_on (\<lambda>j. kv_block s (?idx j)) {0..<unat (smm_num_blocks s) div ?k}"
    by (rule primary_blocks_inj [OF fits])
  moreover have "smm_base_addr s + smm_client_kv_area_off s \<le> kv_block s (?idx j) \<and>
      unat (kv_block s (?idx j)) + unat (smm_block_size s) \<le> unat (smm_client_kv_area_limit s)"
    if "j < unat (smm_num_blocks s) div ?k" for j
    using kv_block_region [OF fits primary_index_bound [OF fits that]] by simp
  ultimately show ?thesis unfolding closed by (simp add: distinct_map)
qed

theorem server_blocks_placed_witness:
  "\<exists>s'. get_allocable_blocks node_demo = Some s' \<and> length (smm_allocable_blocks s') = 2 \<and>
     distinct (smm_allocable_blocks s')"
  using server_blocks_placed [OF node_demo_fits(1,2,3)] by (auto simp: node_demo_def)

text \<open>
  C6. From its start on, a memory node never hands out a block it
  has handed out before, as long as nobody gives one back: any number of successful
  allocations yields different blocks, and there are as many as were placed.
\<close>

theorem server_never_reuses:
  assumes "placement_fits s" "unat (smm_my_sid s) < unat (smm_num_memory s)"
    and "smm_allocable_blocks s = []" "smm_allocated_blocks s = (\<lambda>_. False)"
    and "smm_base_addr s + smm_client_kv_area_off s \<noteq> 0"
    and s': "get_allocable_blocks s = Some s'"
  shows "(\<forall>n bs s''. alloc_many srv_alloc n s' = Some (bs, s'') \<longrightarrow> distinct bs \<and> length bs = n) \<and>
     (\<exists>s''. alloc_many srv_alloc (length (smm_allocable_blocks s')) s' = Some (smm_allocable_blocks s', s''))"
proof -
  have inv: "srv_inv s'" by (rule get_allocable_blocks_inv [OF assms])
  have "distinct bs \<and> length bs = n" if "alloc_many srv_alloc n s' = Some (bs, s'')" for n bs s''
    using srv.alloc_many_distinct [OF inv that] by simp
  moreover have "\<exists>s''. alloc_many srv_alloc (length (smm_allocable_blocks s')) s' = Some (smm_allocable_blocks s', s'')"
    using srv.alloc_many_fifo [OF inv order_refl] by auto
  ultimately show ?thesis by blast
qed

theorem server_never_reuses_witness:
  "\<exists>s'. get_allocable_blocks node_demo = Some s' \<and>
     (\<exists>s''. alloc_many srv_alloc (length (smm_allocable_blocks s')) s' = Some (smm_allocable_blocks s', s''))"
proof -
  obtain s' where "get_allocable_blocks node_demo = Some s'"
    using get_allocable_blocks_closed [OF node_demo_fits(1,2,3)] by blast
  with server_never_reuses [OF node_demo_fits this] show ?thesis by blast
qed

text \<open>
  C22. A block that is given back goes to the end of the queue:
  it is handed out again only after every block that was free before.
\<close>

theorem server_release_queues:
  assumes "srv_inv s" "srv_release a s = Some s'"
  shows "\<exists>s''. alloc_many srv_alloc (Suc (length (smm_allocable_blocks s))) s' =
     Some (smm_allocable_blocks s @ [a], s'')"
  by (rule srv.release_then_alloc [OF assms])

theorem server_release_queues_witness:
  "\<exists>s' s''. srv_release 0x11000 (node_demo\<lparr>smm_allocable_blocks := [0x13000],
        smm_allocated_blocks := (\<lambda>a. a = 0x11000)\<rparr>) = Some s' \<and>
     alloc_many srv_alloc 2 s' = Some ([0x13000, 0x11000], s'')"
proof -
  let ?s = "node_demo\<lparr>smm_allocable_blocks := [0x13000], smm_allocated_blocks := (\<lambda>a. a = 0x11000)\<rparr>"
  have inv: "srv_inv ?s" by (simp add: srv_inv_def srv_taken_def)
  obtain s' where s': "srv_release 0x11000 ?s = Some s'"
    using srv.release_iff [OF inv, of "0x11000"] by (auto simp: srv_taken_def)
  from server_release_queues [OF inv s'] s' show ?thesis by (simp add: numeral_2_eq_2)
qed

subsection \<open>Subtables\<close>

definition subtable_addr :: "ServerMM \<Rightarrow> nat \<Rightarrow> addr" where
  "subtable_addr s i = smm_base_addr s + smm_client_hash_area_off s + roundup_256 (of_nat ROOT_RES_LEN)
     + of_nat i * roundup_256 (of_nat SUBTABLE_LEN)"

lemma subtable_addr_st: "subtable_addr s i = get_subtable_st_addr s + of_nat i * 2176000"
  unfolding subtable_addr_def get_subtable_st_addr_def subtable_stride by (simp only: add.commute)

definition sub_alloc :: "ServerMM \<Rightarrow> (addr \<times> ServerMM) option" where
  "sub_alloc s = (case mm_alloc_subtable_srv s of (a, s') \<Rightarrow> if a = 0 then None else Some (a, s'))"

definition sub_taken :: "ServerMM \<Rightarrow> addr set" where
  "sub_taken s = subtable_addr s ` {i. i < length (smm_subtable_alloc_map s) \<and> smm_subtable_alloc_map s ! i}"

text \<open>The whole table area lies above address 0 and does not run past the address space.\<close>

definition sub_inv :: "ServerMM \<Rightarrow> bool" where
  "sub_inv s \<longleftrightarrow> 0 < unat (get_subtable_st_addr s) \<and>
     unat (get_subtable_st_addr s) + length (smm_subtable_alloc_map s) * 2176000 < 2 ^ 64"

lemma unat_subtable_addr:
  assumes "sub_inv s" "i < length (smm_subtable_alloc_map s)"
  shows "unat (subtable_addr s i) = unat (get_subtable_st_addr s) + i * 2176000"
proof -
  have "i * 2176000 \<le> length (smm_subtable_alloc_map s) * 2176000" using assms(2) by simp
  then have lt: "unat (get_subtable_st_addr s) + i * 2176000 < 2 ^ 64" using assms(1) by (simp add: sub_inv_def)
  have "unat (of_nat (i * 2176000) :: 64 word) = i * 2176000"
    unfolding unat_of_nat using lt by (intro mod_less) simp
  then have "unat (get_subtable_st_addr s + of_nat (i * 2176000)) = unat (get_subtable_st_addr s) + i * 2176000"
    using lt by (subst unat_plus_if') simp
  then show ?thesis by (simp add: subtable_addr_st)
qed

lemma subtable_addr_inj:
  assumes "sub_inv s" "i < length (smm_subtable_alloc_map s)" "j < length (smm_subtable_alloc_map s)"
    and "subtable_addr s i = subtable_addr s j"
  shows "i = j"
proof -
  have "unat (get_subtable_st_addr s) + i * 2176000 = unat (get_subtable_st_addr s) + j * 2176000"
    unfolding unat_subtable_addr [OF assms(1,2), symmetric] unat_subtable_addr [OF assms(1,3), symmetric] assms(4) ..
  then show ?thesis by linarith
qed

lemma sub_alloc_Some:
  assumes inv: "sub_inv s"
  shows "sub_alloc s = Some (a, s') \<longleftrightarrow> (\<exists>i < length (smm_subtable_alloc_map s).
     \<not> smm_subtable_alloc_map s ! i \<and> (\<forall>l < i. smm_subtable_alloc_map s ! l) \<and> a = subtable_addr s i \<and>
     s' = s\<lparr>smm_subtable_alloc_map := (smm_subtable_alloc_map s)[i := True]\<rparr>)" (is "_ \<longleftrightarrow> ?r")
proof (cases "first_free_subtable 0 (smm_subtable_alloc_map s)")
  case None
  then have "\<forall>b \<in> set (smm_subtable_alloc_map s). b" by (simp add: first_free_subtable_None)
  then have "smm_subtable_alloc_map s ! i" if "i < length (smm_subtable_alloc_map s)" for i using that nth_mem by blast
  then have "\<not> ?r" by blast
  then show ?thesis using None by (simp add: sub_alloc_def mm_alloc_subtable_srv_def)
next
  case (Some i)
  then have i: "i < length (smm_subtable_alloc_map s)" "\<not> smm_subtable_alloc_map s ! i"
    "\<forall>l < i. smm_subtable_alloc_map s ! l"
    using first_free_subtable_Some [OF Some] by simp_all
  have "subtable_addr s i \<noteq> 0" 
  proof
    assume "subtable_addr s i = 0"
    then have "unat (get_subtable_st_addr s) + i * 2176000 = 0" unfolding unat_subtable_addr [OF inv i(1), symmetric] by simp
    then show False using inv by (simp add: sub_inv_def)
  qed
  then have eq: "sub_alloc s = Some (subtable_addr s i, s\<lparr>smm_subtable_alloc_map := (smm_subtable_alloc_map s)[i := True]\<rparr>)"
    using Some by (simp add: sub_alloc_def mm_alloc_subtable_srv_def subtable_addr_def [symmetric])
  show ?thesis
  proof
    assume "sub_alloc s = Some (a, s')"
    then show ?r using eq i by (intro exI [of _ i]) simp
  next
    assume ?r
    then obtain j where j: "\<not> smm_subtable_alloc_map s ! j" "\<forall>l < j. smm_subtable_alloc_map s ! l"
      "a = subtable_addr s j" "s' = s\<lparr>smm_subtable_alloc_map := (smm_subtable_alloc_map s)[j := True]\<rparr>" by blast
    have "j = i" using j(1,2) i(2,3) linorder_neqE_nat by metis
    then show "sub_alloc s = Some (a, s')" using eq j(3,4) by simp
  qed
qed

interpretation sub: fresh_allocator sub_alloc sub_taken sub_inv
proof
  fix s a s' assume inv: "sub_inv s" and "sub_alloc s = Some (a, s')"
  then obtain i where i: "i < length (smm_subtable_alloc_map s)" "\<not> smm_subtable_alloc_map s ! i"
    "a = subtable_addr s i" "s' = s\<lparr>smm_subtable_alloc_map := (smm_subtable_alloc_map s)[i := True]\<rparr>"
    unfolding sub_alloc_Some [OF inv] by blast
  show "a \<notin> sub_taken s" using i subtable_addr_inj [OF inv] by (auto simp: sub_taken_def)
  have "subtable_addr s' = subtable_addr s" by (simp add: fun_eq_iff subtable_addr_def i(4))
  moreover have "{j. j < length (smm_subtable_alloc_map s') \<and> smm_subtable_alloc_map s' ! j} =
      insert i {j. j < length (smm_subtable_alloc_map s) \<and> smm_subtable_alloc_map s ! j}"
    using i(1) by (auto simp: i(4) nth_list_update)
  ultimately show "sub_taken s' = insert a (sub_taken s)" by (simp add: sub_taken_def i(3))
  show "sub_inv s'" using inv by (simp add: sub_inv_def i(4) get_subtable_st_addr_def)
qed

text \<open>
  C21. The subtables a memory node hands out are pairwise different, and
  different from every subtable handed out before.
\<close>

theorem subtables_fresh:
  assumes "sub_inv s" "alloc_many sub_alloc n s = Some (tables, s')"
  shows "distinct tables \<and> set tables \<inter> sub_taken s = {} \<and> sub_taken s' = sub_taken s \<union> set tables"
  using sub.alloc_many_distinct [OF assms] by blast

theorem subtables_fresh_witness:
  "\<exists>tables s'. alloc_many sub_alloc (Suc (Suc 0)) node_demo = Some (tables, s') \<and> distinct tables"
proof -
  have inv: "sub_inv node_demo"
    by (simp add: sub_inv_def node_demo_def get_subtable_st_addr_def root_room)
  obtain tables s' where "alloc_many sub_alloc (Suc (Suc 0)) node_demo = Some (tables, s')"
    by (simp add: sub_alloc_def mm_alloc_subtable_srv_def node_demo_def root_room subtable_stride)
  with subtables_fresh [OF inv this] show ?thesis by blast
qed

end
