(* ===== verification/Ib.thy ===== *)
theory Ib
  imports Hashtable "HOL-Library.AList"
begin

text \<open>
  \<open>src/src/ib.h\<close> and \<open>ib.cc\<close>: work requests and their identifiers, merging the
  requests of one memory node into a chain, and bringing a queue pair up. The
  verbs library itself is outside the sources: \<open>ibv_modify_qp\<close> is an argument here,
  posting and polling are arguments of the definitions in theory \<open>Nm\<close>.
\<close>

section \<open>Work requests\<close>

datatype ibv_wr_opcode = IBV_WR_RDMA_WRITE | IBV_WR_RDMA_READ
  | IBV_WR_ATOMIC_CMP_AND_SWP | IBV_WR_ATOMIC_FETCH_AND_ADD

record ibv_sge =
  sge_addr :: addr
  sge_length :: "32 word"
  sge_lkey :: "32 word"

text \<open>
  A request has one scatter/gather element. \<open>wr_inl\<close> carries the bytes of an inline
  send whose source is a stack variable; the union of \<open>rdma\<close> and \<open>atomic\<close> operands is
  flattened.
\<close>

record ibv_send_wr =
  wr_id :: "64 word"
  wr_sge :: ibv_sge
  wr_inl :: "byte list option"
  wr_opcode :: ibv_wr_opcode
  wr_signaled :: bool
  wr_inline :: bool
  wr_fence :: bool
  wr_remote_addr :: addr
  wr_rkey :: "32 word"
  wr_compare_add :: "64 word"
  wr_swap :: "64 word"

definition sge0 :: ibv_sge where
  "sge0 = \<lparr>sge_addr = 0, sge_length = 0, sge_lkey = 0\<rparr>"

text \<open>The request after \<open>memset(sr, 0, \<dots>)\<close>: opcode 0 is \<open>IBV_WR_RDMA_WRITE\<close>.\<close>

definition wr0 :: ibv_send_wr where
  "wr0 = \<lparr>wr_id = 0, wr_sge = sge0, wr_inl = None, wr_opcode = IBV_WR_RDMA_WRITE,
     wr_signaled = False, wr_inline = False, wr_fence = False,
     wr_remote_addr = 0, wr_rkey = 0, wr_compare_add = 0, wr_swap = 0\<rparr>"

record IbvSrList =
  sr_list :: "ibv_send_wr list"
  sr_server_id :: "32 word"

record ibv_wc =
  wc_wr_id :: "64 word"
  wc_success :: bool

section \<open>Request identifiers\<close>

definition ib_gen_wr_id :: "32 word \<Rightarrow> byte \<Rightarrow> 32 word \<Rightarrow> 32 word \<Rightarrow> 64 word" where
  "ib_gen_wr_id coro_id dst_server_id req_type_st req_seq =
     (push_bit 8 (ucast coro_id) + ucast dst_server_id) * 1000 + ucast req_type_st + ucast req_seq"

definition wrid_to_fiber_id :: "64 word \<Rightarrow> 32 word" where
  "wrid_to_fiber_id i = ucast (drop_bit 8 (i div 1000))"

definition wrid_to_dst_sid :: "64 word \<Rightarrow> byte" where
  "wrid_to_dst_sid i = ucast ((i div 1000) AND 0xFF)"

definition wrid_to_req_seq :: "64 word \<Rightarrow> 32 word" where
  "wrid_to_req_seq i = ucast (i mod 1000)"

section \<open>Merging\<close>

text \<open>
  Linking the last request of each list to the head of the next one gives the
  concatenation. An empty vector, or an empty last list, indexes out of bounds.
\<close>

definition ib_merge_sr_lists_unsignaled :: "IbvSrList list \<Rightarrow> ibv_send_wr list option" where
  "ib_merge_sr_lists_unsignaled sr_lists =
     (if sr_lists = [] \<or> (\<exists>l \<in> set sr_lists. sr_list l = []) then None
      else Some (concat (map sr_list sr_lists)))"

definition ib_merge_sr_lists :: "IbvSrList list \<Rightarrow> (ibv_send_wr list \<times> 64 word) option" where
  "ib_merge_sr_lists sr_lists =
     (if sr_lists = [] \<or> (\<exists>l \<in> set sr_lists. sr_list l = []) then None
      else (let srs = concat (map sr_list sr_lists); lst = last srs
            in Some (butlast srs @ [lst\<lparr>wr_signaled := True\<rparr>], wr_id lst)))"

definition ib_is_all_wrid_finished :: "(64 word \<times> ibv_wc option) list \<Rightarrow> bool" where
  "ib_is_all_wrid_finished wait_wrid_wc_map \<longleftrightarrow> list_all (\<lambda>(i, wc). wc \<noteq> None) wait_wrid_wc_map"

section \<open>Queue pairs\<close>

datatype qp_state = IBV_QPS_RESET | IBV_QPS_INIT | IBV_QPS_RTR | IBV_QPS_RTS

record ibv_qp =
  ibqp_num :: "32 word"
  ibqp_state :: qp_state
  ibqp_dest :: "32 word"

record ibv_qp_attr =
  at_qp_state :: qp_state
  at_port_num :: byte
  at_dest_qp_num :: "32 word"
  at_dlid :: "16 word"
  at_is_global :: bool
  at_dgid :: "byte list"
  at_sgid_index :: byte

definition attr0 :: ibv_qp_attr where
  "attr0 = \<lparr>at_qp_state = IBV_QPS_RESET, at_port_num = 0, at_dest_qp_num = 0, at_dlid = 0,
     at_is_global = False, at_dgid = replicate 16 0, at_sgid_index = 0\<rparr>"

type_synonym modify_qp = "ibv_qp \<Rightarrow> ibv_qp_attr \<Rightarrow> ibv_qp"

definition modify_qp_to_init :: "modify_qp \<Rightarrow> ibv_qp \<Rightarrow> QpInfo \<Rightarrow> ibv_qp" where
  "modify_qp_to_init ibv_modify_qp qp local_qp_info =
     ibv_modify_qp qp (attr0\<lparr>at_qp_state := IBV_QPS_INIT, at_port_num := qp_port_num local_qp_info\<rparr>)"

definition modify_qp_to_rtr :: "modify_qp \<Rightarrow> ibv_qp \<Rightarrow> QpInfo \<Rightarrow> QpInfo \<Rightarrow> ConnType \<Rightarrow> ibv_qp" where
  "modify_qp_to_rtr ibv_modify_qp local_qp local_qp_info remote_qp_info conn_type =
     (let attr = attr0\<lparr>at_qp_state := IBV_QPS_RTR, at_dest_qp_num := qp_num remote_qp_info,
                 at_dlid := qp_lid remote_qp_info, at_port_num := qp_port_num local_qp_info\<rparr>;
          attr = (if conn_type = ROCE
                  then attr\<lparr>at_is_global := True, at_dgid := qp_gid remote_qp_info,
                            at_sgid_index := qp_gid_idx local_qp_info\<rparr>
                  else attr)
      in ibv_modify_qp local_qp attr)"

definition modify_qp_to_rts :: "modify_qp \<Rightarrow> ibv_qp \<Rightarrow> ibv_qp" where
  "modify_qp_to_rts ibv_modify_qp local_qp =
     ibv_modify_qp local_qp (attr0\<lparr>at_qp_state := IBV_QPS_RTS\<rparr>)"

definition ib_connect_qp ::
    "modify_qp \<Rightarrow> ibv_qp \<Rightarrow> QpInfo \<Rightarrow> QpInfo \<Rightarrow> ConnType \<Rightarrow> Role \<Rightarrow> ibv_qp" where
  "ib_connect_qp ibv_modify_qp local_qp local_qp_info remote_qp_info conn_type role =
     (let qp = modify_qp_to_init ibv_modify_qp local_qp local_qp_info;
          qp = modify_qp_to_rtr ibv_modify_qp qp local_qp_info remote_qp_info conn_type
      in if role = SERVER then qp else modify_qp_to_rts ibv_modify_qp qp)"

section \<open>Properties\<close>

lemma ib_gen_wr_id_unat:
  assumes "unat st + unat sq < 1000"
  shows "unat (ib_gen_wr_id coro sid st sq) = (unat coro * 256 + unat sid) * 1000 + unat st + unat sq"
proof -
  have c: "unat coro < 2 ^ 32" and s: "unat sid < 2 ^ 8" and t: "unat st < 2 ^ 32" and q: "unat sq < 2 ^ 32"
    using unat_bound [of coro] unat_bound [of sid] unat_bound [of st] unat_bound [of sq]
    by simp_all
  have "unat (push_bit 8 (ucast coro) :: 64 word) = unat coro * 256"
    using c by (simp add: push_bit_eq_mult unat_word_ariths unsigned_ucast_eq take_bit_nat_eq_self)
  moreover have "unat (ucast sid :: 64 word) = unat sid" "unat (ucast st :: 64 word) = unat st"
    "unat (ucast sq :: 64 word) = unat sq"
    using s t q by (simp_all add: unsigned_ucast_eq take_bit_nat_eq_self)
  ultimately show ?thesis
    using c s t q assms by (simp add: ib_gen_wr_id_def unat_word_ariths)
qed

lemma wrid_to_req_seq_gen:
  assumes "unat st + unat sq < 1000"
  shows "wrid_to_req_seq (ib_gen_wr_id coro sid st sq) = st + sq"
proof -
  have "unat (ib_gen_wr_id coro sid st sq mod 1000) = unat st + unat sq"
    using assms mod_mult_self3 [of "unat coro * 256 + unat sid" 1000 "unat st + unat sq"]
    by (simp add: unat_mod_distrib ib_gen_wr_id_unat add.assoc del: mod_mult_self3)
  then have "unat (wrid_to_req_seq (ib_gen_wr_id coro sid st sq)) = unat st + unat sq"
    using assms by (simp add: wrid_to_req_seq_def unsigned_ucast_eq take_bit_nat_eq_self)
  moreover have "unat (st + sq) = unat st + unat sq"
    using assms by (simp add: unat_word_ariths)
  ultimately show ?thesis by (metis unsigned_word_eqI)
qed

lemma wrid_div_1000:
  assumes "unat st + unat sq < 1000"
  shows "unat (ib_gen_wr_id coro sid st sq div 1000) = unat coro * 256 + unat sid"
  using assms by (simp add: unat_div_distrib ib_gen_wr_id_unat add.assoc)

lemma wrid_to_dst_sid_gen:
  assumes "unat st + unat sq < 1000"
  shows "wrid_to_dst_sid (ib_gen_wr_id coro sid st sq) = sid"
proof -
  have "unat (take_bit 8 (ib_gen_wr_id coro sid st sq div 1000)) = unat sid"
    using unat_bound [of sid]
    by (simp add: take_bit_eq_mod unat_mod_distrib wrid_div_1000 [OF assms])
  then have "unat (wrid_to_dst_sid (ib_gen_wr_id coro sid st sq)) = unat sid"
    using unat_bound [of sid]
    by (simp add: wrid_to_dst_sid_def mask_FF unsigned_ucast_eq take_bit_nat_eq_self flip: take_bit_eq_mask)
  then show ?thesis by (metis unsigned_word_eqI)
qed

lemma wrid_to_fiber_id_gen:
  assumes "unat st + unat sq < 1000"
  shows "wrid_to_fiber_id (ib_gen_wr_id coro sid st sq) = coro"
proof -
  have "unat (drop_bit 8 (ib_gen_wr_id coro sid st sq div 1000)) = (unat coro * 256 + unat sid) div 256"
    unfolding wrid_div_1000 [OF assms, symmetric] by (simp add: drop_bit_eq_div unat_div_distrib)
  then have "unat (drop_bit 8 (ib_gen_wr_id coro sid st sq div 1000)) = unat coro"
    using unat_bound [of sid] by simp
  then have "unat (wrid_to_fiber_id (ib_gen_wr_id coro sid st sq)) = unat coro"
    using unat_bound [of coro]
    by (simp add: wrid_to_fiber_id_def unsigned_ucast_eq take_bit_nat_eq_self)
  then show ?thesis by (metis unsigned_word_eqI)
qed

lemma ib_gen_wr_id_sid_inj:
  assumes "unat st + unat sq < 1000" "unat st' + unat sq' < 1000"
    and "ib_gen_wr_id coro sid st sq = ib_gen_wr_id coro' sid' st' sq'"
  shows "coro = coro' \<and> sid = sid' \<and> st + sq = st' + sq'"
  using assms wrid_to_dst_sid_gen wrid_to_fiber_id_gen wrid_to_req_seq_gen by metis

text \<open>What the verbs documentation says of a successful \<open>ibv_modify_qp\<close>.\<close>

definition modifies_qp :: "modify_qp \<Rightarrow> bool" where
  "modifies_qp mq \<longleftrightarrow> (\<forall>qp a. mq qp a = qp\<lparr>ibqp_state := at_qp_state a,
     ibqp_dest := (if at_qp_state a = IBV_QPS_RTR then at_dest_qp_num a else ibqp_dest qp)\<rparr>)"

lemma ib_connect_qp_state:
  assumes "modifies_qp mq"
  shows "ib_connect_qp mq qp l r ct role = qp\<lparr>ibqp_dest := qp_num r,
     ibqp_state := (if role = SERVER then IBV_QPS_RTR else IBV_QPS_RTS)\<rparr>"
  using assms
  by (simp add: ib_connect_qp_def modify_qp_to_init_def modify_qp_to_rtr_def modify_qp_to_rts_def
      modifies_qp_def Let_def attr0_def)

subsection \<open>Claims\<close>

text \<open>
  C34. A work request identifier built from a request type and a sequence
  number that together stay below 1000 gives back its coroutine, its memory node and
  the sum of the other two: identifiers for different nodes or coroutines differ.
\<close>

theorem wr_id_fields:
  assumes "unat st + unat sq < 1000"
  shows "wrid_to_fiber_id (ib_gen_wr_id coro sid st sq) = coro \<and>
    wrid_to_dst_sid (ib_gen_wr_id coro sid st sq) = sid \<and>
    wrid_to_req_seq (ib_gen_wr_id coro sid st sq) = st + sq"
  using assms by (simp add: wrid_to_fiber_id_gen wrid_to_dst_sid_gen wrid_to_req_seq_gen)

theorem wr_id_fields_witness:
  "wrid_to_fiber_id (ib_gen_wr_id 7 3 400 2) = 7 \<and> wrid_to_dst_sid (ib_gen_wr_id 7 3 400 2) = 3 \<and>
   wrid_to_req_seq (ib_gen_wr_id 7 3 400 2) = 402"
  using wr_id_fields [of 400 2 7 3] by simp



end
