(* ===== verification/Server.thy ===== *)
theory Server
  imports ServerMM Ib
begin

text \<open>
  The memory node's message loop, \<open>src/src/server.cc\<close>, with the part of
  \<open>src/src/nm.cc\<close> that runs on the node: answering a connection request and the two
  allocation requests. A freshly created queue pair and \<open>ibv_modify_qp\<close> are arguments.
\<close>

record SrvNm =
  snm_server_id :: "32 word"
  snm_role :: Role
  snm_conn_type :: ConnType
  snm_lid :: "16 word"
  snm_port_num :: byte
  snm_gid :: "byte list"
  snm_rc_qp_list :: "ibv_qp option list"

record Server =
  srv_server_id :: "32 word"
  srv_nm :: SrvNm
  srv_mm :: ServerMM

section \<open>Queue pairs of the node\<close>

definition get_qp_info :: "SrvNm \<Rightarrow> ibv_qp \<Rightarrow> QpInfo \<Rightarrow> QpInfo" where
  "get_qp_info nm qp qp_info = qp_info\<lparr>qp_num := ibqp_num qp, qp_lid := snm_lid nm,
     qp_port_num := snm_port_num nm,
     qp_gid := (if snm_conn_type nm = ROCE then snm_gid nm else replicate 16 0)\<rparr>"

definition nm_on_connect_new_qp :: "ibv_qp \<Rightarrow> KVMsg \<Rightarrow> QpInfo \<Rightarrow> SrvNm \<Rightarrow> QpInfo \<times> SrvNm" where
  "nm_on_connect_new_qp new_rc_qp request qp_info nm =
     (let i = unat (msg_id request);
          qps = snm_rc_qp_list nm;
          qps = (if length qps \<le> i then qps @ replicate (i + 1 - length qps) None else qps);
          nm = nm\<lparr>snm_rc_qp_list := qps[i := Some new_rc_qp]\<rparr>
      in (get_qp_info nm new_rc_qp qp_info, nm))"

text \<open>A missing queue pair is a null pointer.\<close>

definition nm_on_connect_connect_qp ::
    "modify_qp \<Rightarrow> nat \<Rightarrow> QpInfo \<Rightarrow> QpInfo \<Rightarrow> SrvNm \<Rightarrow> SrvNm option" where
  "nm_on_connect_connect_qp ibv_modify_qp client_id local_qp_info remote_qp_info nm =
     (if client_id < length (snm_rc_qp_list nm) then do {
        qp \<leftarrow> snm_rc_qp_list nm ! client_id;
        let qp = ib_connect_qp ibv_modify_qp qp local_qp_info remote_qp_info
                   (snm_conn_type nm) (snm_role nm);
        Some (nm\<lparr>snm_rc_qp_list := (snm_rc_qp_list nm)[client_id := Some qp]\<rparr>) }
      else None)"

section \<open>Handlers\<close>

definition qp_info0 :: QpInfo where
  "qp_info0 = \<lparr>qp_num = 0, qp_lid = 0, qp_port_num = 0, qp_gid = replicate 16 0, qp_gid_idx = 0\<rparr>"

text \<open>Each handler returns the reply as it goes on the wire.\<close>

definition server_on_connect ::
    "modify_qp \<Rightarrow> ibv_qp \<Rightarrow> KVMsg \<Rightarrow> Server \<Rightarrow> (KVMsg \<times> Server) option" where
  "server_on_connect ibv_modify_qp new_qp request s =
     do {
       let (qi, nm) = nm_on_connect_new_qp new_qp request qp_info0 (srv_nm s);
       let reply = \<lparr>msg_type = KVMsgType_code REP_CONNECT, msg_id = ucast (srv_server_id s),
             msg_body = BodyConn \<lparr>ci_qp_info = qi, ci_gc_info = get_mr_info (srv_mm s)\<rparr>\<rparr>;
       wire \<leftarrow> serialize_kvmsg reply;
       reply \<leftarrow> deserialize_kvmsg wire;
       case (msg_body reply, msg_body request) of
         (BodyConn l, BodyConn r) \<Rightarrow> do {
           nm \<leftarrow> nm_on_connect_connect_qp ibv_modify_qp (unat (msg_id request))
                   (ci_qp_info l) (ci_qp_info r) nm;
           Some (wire, s\<lparr>srv_nm := nm\<rparr>) }
       | _ \<Rightarrow> None }"

definition server_on_alloc :: "KVMsg \<Rightarrow> Server \<Rightarrow> (KVMsg \<times> Server) option" where
  "server_on_alloc request s =
     do {
       let (alloc_addr, mm) = mm_alloc_srv (srv_mm s);
       let reply = \<lparr>msg_type = KVMsgType_code REP_ALLOC, msg_id = ucast (snm_server_id (srv_nm s)),
             msg_body = BodyMr \<lparr>mr_addr = (if alloc_addr \<noteq> 0 then alloc_addr else 0),
                                mr_rkey = get_rkey mm\<rparr>\<rparr>;
       wire \<leftarrow> serialize_kvmsg reply;
       Some (wire, s\<lparr>srv_mm := mm\<rparr>) }"

definition server_on_alloc_subtable :: "KVMsg \<Rightarrow> Server \<Rightarrow> (KVMsg \<times> Server) option" where
  "server_on_alloc_subtable request s =
     do {
       let (subtable_addr, mm) = mm_alloc_subtable_srv (srv_mm s);
       let reply = \<lparr>msg_type = KVMsgType_code REP_ALLOC_SUBTABLE,
             msg_id = ucast (snm_server_id (srv_nm s)),
             msg_body = BodyMr \<lparr>mr_addr = subtable_addr, mr_rkey = get_rkey mm\<rparr>\<rparr>;
       wire \<leftarrow> serialize_kvmsg reply;
       Some (wire, s\<lparr>srv_mm := mm\<rparr>) }"

definition server_dispatch ::
    "modify_qp \<Rightarrow> ibv_qp \<Rightarrow> KVMsg \<Rightarrow> Server \<Rightarrow> (KVMsg \<times> Server) option" where
  "server_dispatch ibv_modify_qp new_qp wire s =
     do {
       request \<leftarrow> deserialize_kvmsg wire;
       if msg_type request = KVMsgType_code REQ_CONNECT
       then server_on_connect ibv_modify_qp new_qp request s
       else if msg_type request = KVMsgType_code REQ_ALLOC_SUBTABLE
       then server_on_alloc_subtable request s
       else server_on_alloc request s }"

text \<open>
  The loop over a sequence of receive events: the stop flag before and after the
  receive, and the message or \<^const>\<open>None\<close> when the receive failed or timed out.
\<close>

fun thread_main ::
    "modify_qp \<Rightarrow> (bool \<times> (KVMsg \<times> ibv_qp) option \<times> bool) list \<Rightarrow> Server
      \<Rightarrow> (KVMsg list \<times> Server) option" where
  "thread_main mq [] s = Some ([], s)"
| "thread_main mq ((stop0, ev, stop1) # evs) s =
     (if stop0 then Some ([], s)
      else case ev of
        None \<Rightarrow> if stop1 then Some ([], s) else thread_main mq evs s
      | Some (wire, new_qp) \<Rightarrow> do {
          (reply, s) \<leftarrow> server_dispatch mq new_qp wire s;
          (replies, s) \<leftarrow> thread_main mq evs s;
          Some (reply # replies, s) })"

section \<open>Properties\<close>

lemma serialize_mr_reply:
  "is_mr_type t \<Longrightarrow> serialize_kvmsg \<lparr>msg_type = t, msg_id = i, msg_body = BodyMr r\<rparr> =
     Some \<lparr>msg_type = htons t, msg_id = htons i, msg_body = BodyMr (serialize_mr_info r)\<rparr>"
  by (auto simp: serialize_kvmsg_def convert_body_def is_conn_type_def is_mr_type_def)

lemma mr_types [simp]:
  "is_mr_type (KVMsgType_code REQ_ALLOC)" "is_mr_type (KVMsgType_code REP_ALLOC)"
  "is_mr_type (KVMsgType_code REQ_ALLOC_SUBTABLE)" "is_mr_type (KVMsgType_code REP_ALLOC_SUBTABLE)"
  by (simp_all add: is_mr_type_def)

text \<open>The allocation reply a client decodes.\<close>

definition alloc_reply :: "KVMsgType \<Rightarrow> addr \<Rightarrow> Server \<Rightarrow> KVMsg" where
  "alloc_reply t a s = \<lparr>msg_type = KVMsgType_code t, msg_id = ucast (snm_server_id (srv_nm s)),
     msg_body = BodyMr \<lparr>mr_addr = a, mr_rkey = smm_rkey (srv_mm s)\<rparr>\<rparr>"

lemma server_on_alloc_eq:
  "server_on_alloc req s = do {
     wire \<leftarrow> serialize_kvmsg (alloc_reply REP_ALLOC (fst (mm_alloc_srv (srv_mm s))) s);
     Some (wire, s\<lparr>srv_mm := snd (mm_alloc_srv (srv_mm s))\<rparr>) }"
proof -
  have "smm_rkey (snd (mm_alloc_srv m)) = smm_rkey m" for m
    by (simp add: mm_alloc_srv_def split: list.split)
  then show ?thesis
    by (simp add: server_on_alloc_def alloc_reply_def get_rkey_def Let_def case_prod_unfold)
qed

lemma server_on_alloc_subtable_eq:
  "server_on_alloc_subtable req s = do {
     wire \<leftarrow> serialize_kvmsg (alloc_reply REP_ALLOC_SUBTABLE (fst (mm_alloc_subtable_srv (srv_mm s))) s);
     Some (wire, s\<lparr>srv_mm := snd (mm_alloc_subtable_srv (srv_mm s))\<rparr>) }"
proof -
  have "smm_rkey (snd (mm_alloc_subtable_srv m)) = smm_rkey m" for m
    by (simp add: mm_alloc_subtable_srv_def Let_def split: option.split)
  then show ?thesis
    by (simp add: server_on_alloc_subtable_def alloc_reply_def get_rkey_def Let_def case_prod_unfold)
qed

text \<open>A well-formed allocation request is always answered, whatever its identifier.\<close>

lemma server_dispatch_alloc:
  assumes "serialize_kvmsg \<lparr>msg_type = KVMsgType_code REQ_ALLOC, msg_id = i, msg_body = BodyMr r\<rparr> = Some wire"
  shows "\<exists>reply. server_dispatch mq qp wire s = Some (reply, s\<lparr>srv_mm := snd (mm_alloc_srv (srv_mm s))\<rparr>)
     \<and> deserialize_kvmsg reply = Some (alloc_reply REP_ALLOC (fst (mm_alloc_srv (srv_mm s))) s)"
proof -
  obtain reply where r: "serialize_kvmsg (alloc_reply REP_ALLOC (fst (mm_alloc_srv (srv_mm s))) s) = Some reply"
    using serialize_mr_reply [OF mr_types(2)] unfolding alloc_reply_def by blast
  with deserialize_serialize_kvmsg [OF assms] deserialize_serialize_kvmsg [OF r] show ?thesis
    by (simp add: server_dispatch_def server_on_alloc_eq)
qed

lemma server_dispatch_alloc_subtable:
  assumes "serialize_kvmsg \<lparr>msg_type = KVMsgType_code REQ_ALLOC_SUBTABLE, msg_id = i, msg_body = BodyMr r\<rparr>
     = Some wire"
  shows "\<exists>reply. server_dispatch mq qp wire s =
       Some (reply, s\<lparr>srv_mm := snd (mm_alloc_subtable_srv (srv_mm s))\<rparr>)
     \<and> deserialize_kvmsg reply =
       Some (alloc_reply REP_ALLOC_SUBTABLE (fst (mm_alloc_subtable_srv (srv_mm s))) s)"
proof -
  obtain reply where
    r: "serialize_kvmsg (alloc_reply REP_ALLOC_SUBTABLE (fst (mm_alloc_subtable_srv (srv_mm s))) s) = Some reply"
    using serialize_mr_reply [OF mr_types(4)] unfolding alloc_reply_def by blast
  with deserialize_serialize_kvmsg [OF assms] deserialize_serialize_kvmsg [OF r] show ?thesis
    by (simp add: server_dispatch_def server_on_alloc_subtable_eq)
qed

subsection \<open>Claims\<close>

text \<open>The block a reply gives to its client, if it is the answer to an allocation.\<close>

definition block_given :: "KVMsg \<Rightarrow> addr option" where
  "block_given wire = (case deserialize_kvmsg wire of
     None \<Rightarrow> None
   | Some m \<Rightarrow> if msg_type m \<noteq> KVMsgType_code REP_ALLOC then None
       else (case msg_body m of BodyMr r \<Rightarrow> if mr_addr r = 0 then None else Some (mr_addr r) | BodyConn _ \<Rightarrow> None))"

lemma block_given_alloc:
  assumes "server_on_alloc req s = Some (wire, s')"
  shows "block_given wire = (if fst (mm_alloc_srv (srv_mm s)) = 0 then None else Some (fst (mm_alloc_srv (srv_mm s)))) \<and>
    srv_mm s' = snd (mm_alloc_srv (srv_mm s))"
proof -
  from assms obtain w where "serialize_kvmsg (alloc_reply REP_ALLOC (fst (mm_alloc_srv (srv_mm s))) s) = Some w"
    "wire = w" "s' = s\<lparr>srv_mm := snd (mm_alloc_srv (srv_mm s))\<rparr>"
    by (auto simp: server_on_alloc_eq split: bind_splits)
  then show ?thesis
    by (simp add: block_given_def deserialize_serialize_kvmsg) (simp add: alloc_reply_def)
qed

lemma block_given_other:
  assumes "server_on_alloc_subtable req s = Some (wire, s') \<or> server_on_connect mq qp req s = Some (wire, s')"
  shows "block_given wire = None \<and> smm_allocable_blocks (srv_mm s') = smm_allocable_blocks (srv_mm s) \<and>
    smm_allocated_blocks (srv_mm s') = smm_allocated_blocks (srv_mm s)"
  using assms
proof
  assume "server_on_alloc_subtable req s = Some (wire, s')"
  then obtain w where "serialize_kvmsg (alloc_reply REP_ALLOC_SUBTABLE (fst (mm_alloc_subtable_srv (srv_mm s))) s) = Some w"
    "wire = w" "s' = s\<lparr>srv_mm := snd (mm_alloc_subtable_srv (srv_mm s))\<rparr>"
    by (auto simp: server_on_alloc_subtable_eq split: bind_splits)
  moreover have "smm_allocable_blocks (snd (mm_alloc_subtable_srv t)) = smm_allocable_blocks t \<and>
      smm_allocated_blocks (snd (mm_alloc_subtable_srv t)) = smm_allocated_blocks t" for t
    by (simp add: mm_alloc_subtable_srv_def Let_def split: option.split)
  ultimately show ?thesis
    by (simp add: block_given_def deserialize_serialize_kvmsg) (simp add: alloc_reply_def)
next
  assume "server_on_connect mq qp req s = Some (wire, s')"
  then obtain q where "serialize_kvmsg \<lparr>msg_type = KVMsgType_code REP_CONNECT, msg_id = ucast (srv_server_id s),
       msg_body = BodyConn \<lparr>ci_qp_info = q, ci_gc_info = get_mr_info (srv_mm s)\<rparr>\<rparr> = Some wire" "srv_mm s' = srv_mm s"
    by (auto simp: server_on_connect_def Let_def split: bind_splits prod.splits KVMsgBody.splits)
  then show ?thesis by (simp add: block_given_def deserialize_serialize_kvmsg)
qed

lemma server_dispatch_blocks:
  assumes inv: "srv_inv (srv_mm s)" and d: "server_dispatch mq qp wire s = Some (reply, s')"
  shows "srv_inv (srv_mm s') \<and> (case block_given reply of
     None \<Rightarrow> srv_taken (srv_mm s') = srv_taken (srv_mm s)
   | Some a \<Rightarrow> a \<notin> srv_taken (srv_mm s) \<and> srv_taken (srv_mm s') = insert a (srv_taken (srv_mm s)))"
proof -
  from d obtain req where "server_on_alloc req s = Some (reply, s') \<or> server_on_alloc_subtable req s = Some (reply, s')
      \<or> server_on_connect mq qp req s = Some (reply, s')"
    by (auto simp: server_dispatch_def split: bind_splits if_splits)
  then consider (alloc) "server_on_alloc req s = Some (reply, s')"
    | (other) "server_on_alloc_subtable req s = Some (reply, s') \<or> server_on_connect mq qp req s = Some (reply, s')" by blast
  then show ?thesis
  proof cases
    case other
    from block_given_other [OF this] inv show ?thesis by (simp add: srv_inv_def srv_taken_def)
  next
    case alloc
    note bg = block_given_alloc [OF alloc]
    show ?thesis
    proof (cases "fst (mm_alloc_srv (srv_mm s)) = 0")
      case True
      then have "snd (mm_alloc_srv (srv_mm s)) = srv_mm s"
        using inv by (cases "smm_allocable_blocks (srv_mm s)") (auto simp: mm_alloc_srv_def srv_inv_def)
      then show ?thesis using bg True inv by simp
    next
      case False
      then have a: "srv_alloc (srv_mm s) = Some (fst (mm_alloc_srv (srv_mm s)), srv_mm s')"
        using bg by (simp add: srv_alloc_def case_prod_unfold)
      show ?thesis using bg False srv.alloc_fresh [OF inv a] srv.alloc_taken [OF inv a] srv.alloc_inv [OF inv a]
        by simp
    qed
  qed
qed

lemma thread_main_blocks:
  "srv_inv (srv_mm s) \<Longrightarrow> thread_main mq evs s = Some (replies, s') \<Longrightarrow>
   distinct (List.map_filter block_given replies) \<and>
   set (List.map_filter block_given replies) \<inter> srv_taken (srv_mm s) = {}"
proof (induction mq evs s arbitrary: replies rule: thread_main.induct)
  case (1 mq s)
  then show ?case by (simp add: List.map_filter_simps)
next
  case (2 mq stop0 ev stop1 evs s)
  show ?case
  proof (cases "stop0 \<or> ev = None \<and> stop1")
    case True
    then have "replies = []" using 2(4) by (cases stop0) auto
    then show ?thesis by (simp add: List.map_filter_simps)
  next
    case go: False
    show ?thesis
    proof (cases ev)
      case None
      then show ?thesis using 2(1) [OF _ None] 2(3,4) go by simp
    next
      case (Some e)
      obtain wire qp where e: "e = (wire, qp)" by (cases e)
      from 2(4) go obtain r s1 rs where 1: "server_dispatch mq qp wire s = Some (r, s1)"
        "thread_main mq evs s1 = Some (rs, s')" "replies = r # rs"
        by (auto simp: Some e split: bind_splits)
      note step = server_dispatch_blocks [OF 2(3) 1(1)]
      have "distinct (List.map_filter block_given rs) \<and>
          set (List.map_filter block_given rs) \<inter> srv_taken (srv_mm s1) = {}"
        using 2(2) [OF _ Some e [symmetric] 1(1) refl _ 1(2)] go step by blast
      then show ?thesis using step 1(3) by (cases "block_given r") (auto simp: List.map_filter_simps)
    qed
  qed
qed

text \<open>
  C5. Whatever requests reach a memory node, in whatever order and from
  whatever clients, no block is given out twice by the message loop.
\<close>

theorem blocks_given_once:
  assumes "srv_inv (srv_mm s)" "thread_main mq evs s = Some (replies, s')"
  shows "distinct (List.map_filter block_given replies)"
  using thread_main_blocks [OF assms] by blast

definition server_demo :: Server where
  "server_demo = \<lparr>srv_server_id = 1,
     srv_nm = \<lparr>snm_server_id = 1, snm_role = SERVER, snm_conn_type = IB, snm_lid = 0, snm_port_num = 1,
       snm_gid = [], snm_rc_qp_list = []\<rparr>,
     srv_mm = node_demo\<lparr>smm_allocable_blocks := [0x12000, 0x14000]\<rparr>\<rparr>"

definition alloc_request :: KVMsg where
  "alloc_request = \<lparr>msg_type = htons (KVMsgType_code REQ_ALLOC), msg_id = htons 5,
     msg_body = BodyMr (serialize_mr_info \<lparr>mr_addr = 0, mr_rkey = 0\<rparr>)\<rparr>"

definition qp_demo :: ibv_qp where
  "qp_demo = \<lparr>ibqp_num = 4, ibqp_state = IBV_QPS_RESET, ibqp_dest = 0\<rparr>"

theorem blocks_given_once_witness:
  "\<exists>replies s'. thread_main (\<lambda>qp _. qp) (replicate 2 (False, Some (alloc_request, qp_demo), False))
       server_demo = Some (replies, s') \<and> distinct (List.map_filter block_given replies)"
proof -
  have inv: "srv_inv (srv_mm server_demo)"
    by (simp add: server_demo_def srv_inv_def srv_taken_def node_demo_def)
  have req: "serialize_kvmsg \<lparr>msg_type = KVMsgType_code REQ_ALLOC, msg_id = 5,
      msg_body = BodyMr \<lparr>mr_addr = 0, mr_rkey = 0\<rparr>\<rparr> = Some alloc_request"
    unfolding alloc_request_def by (rule serialize_mr_reply [OF mr_types(1)])
  have ok: "\<exists>r s'. server_dispatch (\<lambda>qp _. qp) qp_demo alloc_request s = Some (r, s')" for s
    using server_dispatch_alloc [OF req] by blast
  obtain r1 s1 where 1: "server_dispatch (\<lambda>qp _. qp) qp_demo alloc_request server_demo = Some (r1, s1)" using ok by blast
  obtain r2 s2 where 2: "server_dispatch (\<lambda>qp _. qp) qp_demo alloc_request s1 = Some (r2, s2)" using ok by blast
  have "thread_main (\<lambda>qp _. qp) (replicate 2 (False, Some (alloc_request, qp_demo), False)) server_demo = Some ([r1, r2], s2)"
    by (simp add: numeral_2_eq_2 1 2)
  with blocks_given_once [OF inv this] show ?thesis by blast
qed

end
