(* ===== verification/Nm.thy ===== *)
theory Nm
  imports Server
begin

text \<open>
  The client side of \<open>src/src/nm.cc\<close>: posting chains of work requests to the memory
  nodes and waiting for their completions, and one UDP round trip. The world holds
  the registered memory of the client and of every node, the completion queue, the
  completions recorded by the polling thread, and the nodes' own state. The verbs and
  the socket calls are the fields of an \<open>env\<close> argument.
\<close>

record world =
  w_local :: mem
  w_remote :: "byte \<Rightarrow> mem"
  w_cq :: "ibv_wc list"
  w_tick :: nat
  w_wrid_wc_map :: "64 word \<rightharpoonup> ibv_wc"
  w_servers :: "byte \<Rightarrow> Server"

text \<open>
  \<open>background\<close> is what the other threads do while a thread spins; the \<open>uninit\<close> fields
  are the contents of stack variables the code reads before it has set them.
\<close>

record env =
  ibv_post_send :: "byte \<Rightarrow> ibv_send_wr list \<Rightarrow> world \<Rightarrow> world"
  ibv_poll_cq :: "nat \<Rightarrow> world \<Rightarrow> ibv_wc list \<times> world"
  udp_call :: "32 word \<Rightarrow> KVMsg \<Rightarrow> world \<Rightarrow> (KVMsg \<times> world) option"
  background :: "world \<Rightarrow> world option"
  uninit_meta :: ClientMetaAddrInfo
  uninit_mr :: "nat \<Rightarrow> MrInfo"
  uninit_sid :: "nat \<Rightarrow> byte"
  uninit_u64 :: "64 word"

record Nm =
  nm_server_id :: "32 word"
  nm_num_server :: "32 word"
  nm_mr_info_list :: "MrInfo list"

definition get_one_server_id :: "Nm \<Rightarrow> 32 word \<Rightarrow> 32 word option" where
  "get_one_server_id nm hint =
     (if nm_num_server nm = 0 then None else Some (hint mod nm_num_server nm))"

text \<open>Indexing past the connected nodes reads outside the vector.\<close>

definition get_server_rkey :: "Nm \<Rightarrow> byte \<Rightarrow> 32 word option" where
  "get_server_rkey nm server_id =
     (if unat server_id < length (nm_mr_info_list nm)
      then Some (mr_rkey (nm_mr_info_list nm ! unat server_id)) else None)"

section \<open>Posting and polling\<close>

definition rdma_post_send_batch_async :: "env \<Rightarrow> 32 word \<Rightarrow> ibv_send_wr list \<Rightarrow> world \<Rightarrow> world" where
  "rdma_post_send_batch_async v server_id wr_list w = ibv_post_send v (ucast server_id) wr_list w"

partial_function (option) rdma_poll_one_completion :: "env \<Rightarrow> world \<Rightarrow> (ibv_wc \<times> world) option" where
  [code]: "rdma_poll_one_completion v w =
     (case ibv_poll_cq v 1 w of
        ([], w) \<Rightarrow> rdma_poll_one_completion v w
      | (wc # _, w) \<Rightarrow> Some (wc, w))"

definition is_all_complete :: "(64 word \<times> bool) list \<Rightarrow> bool" where
  "is_all_complete wr_id_comp_map \<longleftrightarrow> list_all snd wr_id_comp_map"

text \<open>The \<open>do \<dots> while\<close> loop that ends the synchronous posts.\<close>

partial_function (option) poll_all :: "env \<Rightarrow> nat \<Rightarrow> (64 word \<times> bool) list \<Rightarrow> world \<Rightarrow> world option" where
  [code]: "poll_all v num_wc comp_wrid_map w =
     (case ibv_poll_cq v num_wc w of
        (wcs, w) \<Rightarrow>
          let comp_wrid_map = fold (\<lambda>wc. AList.update (wc_wr_id wc) True) wcs comp_wrid_map
          in if is_all_complete comp_wrid_map then Some w
             else poll_all v num_wc comp_wrid_map w)"

text \<open>\<open>std::map<uint8_t, std::vector<IbvSrList *> >\<close>, in key order.\<close>

definition server_id_sr_list_map :: "IbvSrList list \<Rightarrow> (byte \<times> IbvSrList list) list" where
  "server_id_sr_list_map srs =
     map (\<lambda>sid. (sid, filter (\<lambda>l. ucast (sr_server_id l) = sid) srs))
       (sort (remdups (map (\<lambda>l. ucast (sr_server_id l)) srs)))"

fun merge_groups :: "(byte \<times> IbvSrList list) list \<Rightarrow> (byte \<times> ibv_send_wr list \<times> 64 word) list option" where
  "merge_groups [] = Some []"
| "merge_groups ((sid, ls) # gs) = do {
     (srs, last_wr_id) \<leftarrow> ib_merge_sr_lists ls;
     rest \<leftarrow> merge_groups gs;
     Some ((sid, srs, last_wr_id) # rest) }"

definition post_groups :: "env \<Rightarrow> (byte \<times> ibv_send_wr list \<times> 64 word) list \<Rightarrow> world \<Rightarrow> world" where
  "post_groups v = fold (\<lambda>(sid, srs, _). ibv_post_send v sid srs)"

definition rdma_post_sr_lists_sync :: "env \<Rightarrow> IbvSrList list \<Rightarrow> world \<Rightarrow> world option" where
  "rdma_post_sr_lists_sync v sr_lists w =
     do {
       post_sr_map \<leftarrow> merge_groups (server_id_sr_list_map sr_lists);
       let comp_wrid_map = fold (\<lambda>(_, _, i). AList.update i False) post_sr_map [];
       let w = post_groups v post_sr_map w;
       poll_all v (length post_sr_map) comp_wrid_map w }"

definition rdma_post_sr_list_batch_sync :: "env \<Rightarrow> IbvSrList list list \<Rightarrow> world \<Rightarrow> world option" where
  "rdma_post_sr_list_batch_sync v sr_list_batch w =
     do {
       post_sr_map \<leftarrow> merge_groups (server_id_sr_list_map (concat sr_list_batch));
       let comp_wrid_map = fold (\<lambda>(_, _, i). AList.update i False) post_sr_map [];
       let w = post_groups v post_sr_map w;
       poll_all v (length post_sr_map) comp_wrid_map w }"

definition rdma_post_sr_lists_async ::
    "env \<Rightarrow> IbvSrList list \<Rightarrow> (64 word \<times> ibv_wc option) list \<Rightarrow> world
      \<Rightarrow> ((64 word \<times> ibv_wc option) list \<times> world) option" where
  "rdma_post_sr_lists_async v sr_lists wait_wrid_wc_map w =
     do {
       post_sr_map \<leftarrow> merge_groups (server_id_sr_list_map sr_lists);
       Some (fold (\<lambda>(_, _, i). AList.update i None) post_sr_map wait_wrid_wc_map,
             post_groups v post_sr_map w) }"

definition rdma_post_sr_list_batch_async ::
    "env \<Rightarrow> IbvSrList list list \<Rightarrow> (64 word \<times> ibv_wc option) list \<Rightarrow> world
      \<Rightarrow> ((64 word \<times> ibv_wc option) list \<times> world) option" where
  "rdma_post_sr_list_batch_async v sr_list_batch wait_wrid_wc_map w =
     do {
       post_sr_map \<leftarrow> merge_groups (server_id_sr_list_map (concat sr_list_batch));
       Some (fold (\<lambda>(_, _, i). AList.update i None) post_sr_map wait_wrid_wc_map,
             post_groups v post_sr_map w) }"

fun merge_groups_unsignaled :: "(byte \<times> IbvSrList list) list \<Rightarrow> (byte \<times> ibv_send_wr list) list option" where
  "merge_groups_unsignaled [] = Some []"
| "merge_groups_unsignaled ((sid, ls) # gs) = do {
     srs \<leftarrow> ib_merge_sr_lists_unsignaled ls;
     rest \<leftarrow> merge_groups_unsignaled gs;
     Some ((sid, srs) # rest) }"

definition rdma_post_sr_lists_sync_unsignaled :: "env \<Rightarrow> IbvSrList list \<Rightarrow> world \<Rightarrow> world option" where
  "rdma_post_sr_lists_sync_unsignaled v sr_lists w =
     do {
       post_sr_map \<leftarrow> merge_groups_unsignaled (server_id_sr_list_map sr_lists);
       Some (fold (\<lambda>(sid, srs). ibv_post_send v sid srs) post_sr_map w) }"

section \<open>Completions recorded by the polling thread\<close>

text \<open>One pass over the awaited identifiers: a recorded completion is taken out of the map.\<close>

fun nm_check_completion ::
    "(64 word \<times> ibv_wc option) list \<Rightarrow> world \<Rightarrow> (64 word \<times> ibv_wc option) list \<times> world" where
  "nm_check_completion [] w = ([], w)"
| "nm_check_completion ((i, old) # rest) w =
     (case w_wrid_wc_map w i of
        None \<Rightarrow> (let (rest, w) = nm_check_completion rest w in ((i, old) # rest, w))
      | Some wc \<Rightarrow> (let w = w\<lparr>w_wrid_wc_map := (w_wrid_wc_map w)(i := None)\<rparr>;
                        (rest, w) = nm_check_completion rest w
                    in ((i, Some wc) # rest, w)))"

partial_function (option) nm_poll_completion_sync ::
    "env \<Rightarrow> (64 word \<times> ibv_wc option) list \<Rightarrow> world
      \<Rightarrow> ((64 word \<times> ibv_wc option) list \<times> world) option" where
  [code]: "nm_poll_completion_sync v wait w =
     (if ib_is_all_wrid_finished wait then Some (wait, w)
      else do {
        w \<leftarrow> background v w;
        (case nm_check_completion wait w of (wait, w) \<Rightarrow> nm_poll_completion_sync v wait w) })"

text \<open>One turn of the polling thread's loop; a failed completion is a failed \<open>assert\<close>.\<close>

definition nm_thread_polling_turn :: "env \<Rightarrow> world \<Rightarrow> world option" where
  "nm_thread_polling_turn v w =
     (case ibv_poll_cq v 1024 w of
        (wcs, w) \<Rightarrow>
          if list_all wc_success wcs
          then Some (fold (\<lambda>wc w. if w_wrid_wc_map w (wc_wr_id wc) = None
                              then w\<lparr>w_wrid_wc_map := (w_wrid_wc_map w)(wc_wr_id wc \<mapsto> wc)\<rparr> else w)
                       wcs w)
          else None)"

section \<open>Single transfers\<close>

definition nm_rdma_read_from_sid ::
    "env \<Rightarrow> addr \<Rightarrow> 32 word \<Rightarrow> 32 word \<Rightarrow> addr \<Rightarrow> 32 word \<Rightarrow> 32 word \<Rightarrow> world \<Rightarrow> world option" where
  "nm_rdma_read_from_sid v local_addr local_lkey sz remote_addr remote_rkey server_id w =
     do {
       let sr = wr0\<lparr>wr_id := 101,
             wr_sge := \<lparr>sge_addr = local_addr, sge_length = sz, sge_lkey = local_lkey\<rparr>,
             wr_opcode := IBV_WR_RDMA_READ, wr_signaled := True,
             wr_remote_addr := remote_addr, wr_rkey := remote_rkey\<rparr>;
       let w = rdma_post_send_batch_async v server_id [sr] w;
       (_, w) \<leftarrow> rdma_poll_one_completion v w;
       Some w }"

definition nm_rdma_write_to_sid ::
    "env \<Rightarrow> addr \<Rightarrow> 32 word \<Rightarrow> 32 word \<Rightarrow> addr \<Rightarrow> 32 word \<Rightarrow> 32 word \<Rightarrow> world \<Rightarrow> world option" where
  "nm_rdma_write_to_sid v local_addr local_lkey sz remote_addr remote_rkey server_id w =
     do {
       let sr = wr0\<lparr>wr_id := 101,
             wr_sge := \<lparr>sge_addr = local_addr, sge_length = sz, sge_lkey = local_lkey\<rparr>,
             wr_opcode := IBV_WR_RDMA_WRITE, wr_signaled := True,
             wr_remote_addr := remote_addr, wr_rkey := remote_rkey\<rparr>;
       let w = rdma_post_send_batch_async v server_id [sr] w;
       (_, w) \<leftarrow> rdma_poll_one_completion v w;
       Some w }"

text \<open>The source of an inline write is given by its bytes.\<close>

definition inline_write :: "64 word \<Rightarrow> byte list \<Rightarrow> addr \<Rightarrow> 32 word \<Rightarrow> ibv_send_wr" where
  "inline_write i data remote_addr remote_rkey =
     wr0\<lparr>wr_id := i, wr_sge := \<lparr>sge_addr = 0, sge_length = of_nat (length data), sge_lkey = 0\<rparr>,
         wr_inl := Some data, wr_opcode := IBV_WR_RDMA_WRITE,
         wr_signaled := True, wr_inline := True, wr_fence := True,
         wr_remote_addr := remote_addr, wr_rkey := remote_rkey\<rparr>"

definition nm_rdma_write_inl_to_sid ::
    "env \<Rightarrow> byte list \<Rightarrow> addr \<Rightarrow> 32 word \<Rightarrow> 32 word \<Rightarrow> world \<Rightarrow> world option" where
  "nm_rdma_write_inl_to_sid v data remote_addr remote_rkey server_id w =
     do {
       let w = rdma_post_send_batch_async v server_id [inline_write 100 data remote_addr remote_rkey] w;
       (_, w) \<leftarrow> rdma_poll_one_completion v w;
       Some w }"

definition nm_rdma_write_inl_to_sid_sync ::
    "env \<Rightarrow> byte list \<Rightarrow> addr \<Rightarrow> 32 word \<Rightarrow> 32 word \<Rightarrow> world \<Rightarrow> world option" where
  "nm_rdma_write_inl_to_sid_sync v data remote_addr remote_rkey server_id w =
     do {
       let w = rdma_post_send_batch_async v server_id [inline_write 0 data remote_addr remote_rkey] w;
       (_, w) \<leftarrow> nm_poll_completion_sync v [(0, None)] w;
       Some w }"

definition nm_rdma_read_from_sid_sync ::
    "env \<Rightarrow> addr \<Rightarrow> 32 word \<Rightarrow> 32 word \<Rightarrow> addr \<Rightarrow> 32 word \<Rightarrow> 32 word
      \<Rightarrow> world \<Rightarrow> world option" where
  "nm_rdma_read_from_sid_sync v local_addr local_lkey sz remote_addr remote_rkey server_id w =
     do {
       let sr = wr0\<lparr>wr_id := 1,
             wr_sge := \<lparr>sge_addr = local_addr, sge_length = sz, sge_lkey = local_lkey\<rparr>,
             wr_opcode := IBV_WR_RDMA_READ, wr_signaled := True,
             wr_remote_addr := remote_addr, wr_rkey := remote_rkey\<rparr>;
       let w = rdma_post_send_batch_async v server_id [sr] w;
       (_, w) \<leftarrow> nm_poll_completion_sync v [(1, None)] w;
       Some w }"

text \<open>
  \<open>nm_send_udp_msg_to_server\<close> followed by \<open>nm_recv_udp_msg\<close>: the two results are
  ignored by every caller.
\<close>

definition nm_udp_round_trip :: "env \<Rightarrow> KVMsg \<Rightarrow> 32 word \<Rightarrow> world \<Rightarrow> (KVMsg \<times> world) option" where
  "nm_udp_round_trip v kvmsg server_id w = udp_call v server_id kvmsg w"

section \<open>What the verbs promise\<close>

text \<open>
  The memory effect of one request on a reliable connection. \<open>run_wr\<close> is stated
  only to say what \<open>ibv_post_send\<close> is documented to do.
\<close>

definition wr_data :: "ibv_send_wr \<Rightarrow> mem \<Rightarrow> byte list" where
  "wr_data wr m = (case wr_inl wr of Some bs \<Rightarrow> bs
     | None \<Rightarrow> load_bytes (unat (sge_length (wr_sge wr))) m (sge_addr (wr_sge wr)))"

definition run_wr :: "byte \<Rightarrow> ibv_send_wr \<Rightarrow> world \<Rightarrow> world" where
  "run_wr sid wr w =
     (let l = sge_addr (wr_sge wr); r = wr_remote_addr wr; rm = w_remote w sid
      in case wr_opcode wr of
           IBV_WR_RDMA_READ \<Rightarrow>
             w\<lparr>w_local := store_bytes l (load_bytes (unat (sge_length (wr_sge wr))) rm r) (w_local w)\<rparr>
         | IBV_WR_RDMA_WRITE \<Rightarrow>
             w\<lparr>w_remote := (w_remote w)(sid := store_bytes r (wr_data wr (w_local w)) rm)\<rparr>
         | IBV_WR_ATOMIC_CMP_AND_SWP \<Rightarrow>
             w\<lparr>w_local := store64 l (load64 rm r) (w_local w),
               w_remote := (if load64 rm r = wr_compare_add wr
                            then (w_remote w)(sid := store64 r (wr_swap wr) rm) else w_remote w)\<rparr>
         | IBV_WR_ATOMIC_FETCH_AND_ADD \<Rightarrow>
             w\<lparr>w_local := store64 l (load64 rm r) (w_local w),
               w_remote := (w_remote w)(sid := store64 r (load64 rm r + wr_compare_add wr) rm)\<rparr>)"

definition wc_of :: "ibv_send_wr \<Rightarrow> ibv_wc list" where
  "wc_of wr = (if wr_signaled wr then [\<lparr>wc_wr_id = wr_id wr, wc_success = True\<rparr>] else [])"

text \<open>
  Requests of one chain take effect in order, each signaled one leaves a successful
  completion, a poll hands out some of the waiting completions, and repeated polls
  find a waiting completion eventually.
\<close>

definition rc_verbs :: "env \<Rightarrow> bool" where
  "rc_verbs v \<longleftrightarrow>
     (\<forall>sid srs w. ibv_post_send v sid srs w =
        (fold (run_wr sid) srs w)\<lparr>w_cq := w_cq w @ concat (map wc_of srs)\<rparr>) \<and>
     (\<forall>n w. \<exists>k \<le> n. ibv_poll_cq v n w =
        (take k (w_cq w), w\<lparr>w_cq := drop k (w_cq w), w_tick := Suc (w_tick w)\<rparr>)) \<and>
     (\<forall>n w. 0 < n \<longrightarrow> w_cq w \<noteq> [] \<longrightarrow>
        (\<exists>j. fst (ibv_poll_cq v n (w\<lparr>w_tick := w_tick w + j\<rparr>)) \<noteq> []))"

section \<open>The synchronous posts return\<close>

lemma rc_post:
  "rc_verbs v \<Longrightarrow> ibv_post_send v sid srs w =
     (fold (run_wr sid) srs w)\<lparr>w_cq := w_cq w @ concat (map wc_of srs)\<rparr>"
  by (simp add: rc_verbs_def)

lemma rc_poll:
  assumes "rc_verbs v"
  obtains k where "k \<le> n" "ibv_poll_cq v n w =
    (take k (w_cq w), w\<lparr>w_cq := drop k (w_cq w), w_tick := Suc (w_tick w)\<rparr>)"
  using assms unfolding rc_verbs_def by blast

lemma rc_progress:
  "rc_verbs v \<Longrightarrow> 0 < n \<Longrightarrow> w_cq w \<noteq> [] \<Longrightarrow>
     \<exists>j. fst (ibv_poll_cq v n (w\<lparr>w_tick := w_tick w + j\<rparr>)) \<noteq> []"
  by (simp add: rc_verbs_def)

text \<open>A completion that waits is found after finitely many empty polls.\<close>

lemma poll_eventually:
  assumes rc: "rc_verbs v" and n: "0 < n" and cq: "w_cq w \<noteq> []"
    and skip: "\<And>t. ibv_poll_cq v n (w\<lparr>w_tick := t\<rparr>) = ([], w\<lparr>w_tick := Suc t\<rparr>) \<Longrightarrow>
        F (w\<lparr>w_tick := Suc t\<rparr>) \<Longrightarrow> F (w\<lparr>w_tick := t\<rparr>)"
    and hit: "\<And>t k. 0 < k \<Longrightarrow> k \<le> n \<Longrightarrow> ibv_poll_cq v n (w\<lparr>w_tick := t\<rparr>) =
        (take k (w_cq w), w\<lparr>w_cq := drop k (w_cq w), w_tick := Suc t\<rparr>) \<Longrightarrow> F (w\<lparr>w_tick := t\<rparr>)"
  shows "F w"
proof -
  obtain j where "fst (ibv_poll_cq v n (w\<lparr>w_tick := w_tick w + j\<rparr>)) \<noteq> []"
    using rc_progress [OF rc n cq] by blast
  then have "F (w\<lparr>w_tick := t\<rparr>)" if "t + i = w_tick w + j" for t i
    using that
  proof (induction i arbitrary: t)
    case 0
    obtain k where "k \<le> n" "ibv_poll_cq v n (w\<lparr>w_tick := t\<rparr>) =
      (take k (w_cq w), w\<lparr>w_cq := drop k (w_cq w), w_tick := Suc t\<rparr>)"
      using rc_poll [OF rc, of n "w\<lparr>w_tick := t\<rparr>"] by auto
    then show ?case using 0 hit [of k t] by (cases k) auto
  next
    case (Suc i)
    obtain k where k: "k \<le> n" "ibv_poll_cq v n (w\<lparr>w_tick := t\<rparr>) =
      (take k (w_cq w), w\<lparr>w_cq := drop k (w_cq w), w_tick := Suc t\<rparr>)"
      using rc_poll [OF rc, of n "w\<lparr>w_tick := t\<rparr>"] by auto
    show ?case
    proof (cases k)
      case 0
      have "w\<lparr>w_cq := w_cq w, w_tick := Suc t\<rparr> = w\<lparr>w_tick := Suc t\<rparr>" by simp
      then show ?thesis using skip [of t] k 0 Suc.IH [of "Suc t"] Suc.prems by simp
    qed (use hit [of k t] k in simp)
  qed
  from this [of "w_tick w" j] show ?thesis by simp
qed

lemma rdma_poll_one_returns:
  assumes rc: "rc_verbs v" and cq: "w_cq w = wc # rest"
  shows "\<exists>t. rdma_poll_one_completion v w = Some (wc, w\<lparr>w_cq := rest, w_tick := t\<rparr>)"
proof (rule poll_eventually [OF rc, of 1 w])
  fix t assume "ibv_poll_cq v 1 (w\<lparr>w_tick := t\<rparr>) = ([], w\<lparr>w_tick := Suc t\<rparr>)"
    "\<exists>t'. rdma_poll_one_completion v (w\<lparr>w_tick := Suc t\<rparr>) =
       Some (wc, w\<lparr>w_tick := Suc t\<rparr>\<lparr>w_cq := rest, w_tick := t'\<rparr>)"
  then show "\<exists>t'. rdma_poll_one_completion v (w\<lparr>w_tick := t\<rparr>) =
      Some (wc, w\<lparr>w_tick := t\<rparr>\<lparr>w_cq := rest, w_tick := t'\<rparr>)"
    by (subst rdma_poll_one_completion.simps) simp
next
  fix t k :: nat assume "0 < k" "k \<le> 1" "ibv_poll_cq v 1 (w\<lparr>w_tick := t\<rparr>) =
     (take k (w_cq w), w\<lparr>w_cq := drop k (w_cq w), w_tick := Suc t\<rparr>)"
  then show "\<exists>t'. rdma_poll_one_completion v (w\<lparr>w_tick := t\<rparr>) =
      Some (wc, w\<lparr>w_tick := t\<rparr>\<lparr>w_cq := rest, w_tick := t'\<rparr>)"
    using cq by (subst rdma_poll_one_completion.simps) (auto simp: le_Suc_eq)
qed (simp_all add: cq)

text \<open>The identifiers still awaited.\<close>

definition awaited :: "(64 word \<times> bool) list \<Rightarrow> 64 word set" where
  "awaited cm = {i. map_of cm i = Some False}"

lemma awaited_update_True: "awaited (AList.update i True cm) = awaited cm - {i}"
  by (auto simp: awaited_def update_conv)

lemma awaited_update_False: "awaited (AList.update i False cm) = insert i (awaited cm)"
  by (auto simp: awaited_def update_conv)

lemma awaited_fold_True:
  "awaited (fold (\<lambda>wc. AList.update (wc_wr_id wc) True) wcs cm) = awaited cm - wc_wr_id ` set wcs"
  by (induction wcs arbitrary: cm) (auto simp: awaited_update_True)

lemma distinct_fold_update:
  "distinct (map fst cm) \<Longrightarrow>
   distinct (map fst (fold (\<lambda>x. AList.update (f x) b) xs cm))"
  by (induction xs arbitrary: cm) (auto intro: distinct_update)

lemma is_all_complete_awaited:
  "distinct (map fst cm) \<Longrightarrow> is_all_complete cm \<longleftrightarrow> awaited cm = {}"
proof -
  assume d: "distinct (map fst cm)"
  have "is_all_complete cm \<longleftrightarrow> (\<forall>i. (i, False) \<notin> set cm)"
    by (auto simp: is_all_complete_def list_all_iff) (metis (full_types) prod.collapse)
  then show ?thesis using d by (auto simp: awaited_def)
qed

text \<open>
  The loop returns once every awaited identifier has completed, and it leaves the
  completion queue empty when the queue holds exactly the awaited completions.
\<close>

lemma poll_all_returns:
  assumes rc: "rc_verbs v" and n: "0 < n"
    and "distinct (map fst cm)" "distinct (map wc_wr_id (w_cq w))"
    and "awaited cm = wc_wr_id ` set (w_cq w)" "w_cq w \<noteq> []"
  shows "\<exists>t. poll_all v n cm w = Some (w\<lparr>w_cq := [], w_tick := t\<rparr>)"
  using assms(3-6)
proof (induction "length (w_cq w)" arbitrary: w cm rule: less_induct)
  case less
  show ?case
  proof (rule poll_eventually [OF rc n less.prems(4)])
    fix t assume p: "ibv_poll_cq v n (w\<lparr>w_tick := t\<rparr>) = ([], w\<lparr>w_tick := Suc t\<rparr>)"
      and "\<exists>t'. poll_all v n cm (w\<lparr>w_tick := Suc t\<rparr>) = Some (w\<lparr>w_tick := Suc t\<rparr>\<lparr>w_cq := [], w_tick := t'\<rparr>)"
    moreover have "\<not> is_all_complete cm" using less.prems by (simp add: is_all_complete_awaited)
    ultimately show "\<exists>t'. poll_all v n cm (w\<lparr>w_tick := t\<rparr>) = Some (w\<lparr>w_tick := t\<rparr>\<lparr>w_cq := [], w_tick := t'\<rparr>)"
      by (subst poll_all.simps) simp
  next
    fix t k assume k: "0 < k" "k \<le> n" and p: "ibv_poll_cq v n (w\<lparr>w_tick := t\<rparr>) =
      (take k (w_cq w), w\<lparr>w_cq := drop k (w_cq w), w_tick := Suc t\<rparr>)"
    let ?cm = "fold (\<lambda>wc. AList.update (wc_wr_id wc) True) (take k (w_cq w)) cm"
    let ?w = "w\<lparr>w_cq := drop k (w_cq w), w_tick := Suc t\<rparr>"
    have d: "distinct (map fst ?cm)" using less.prems(1) by (rule distinct_fold_update)
    have "distinct (map wc_wr_id (take k (w_cq w)) @ map wc_wr_id (drop k (w_cq w)))"
      using less.prems(2) by (simp flip: map_append)
    then have "wc_wr_id ` set (take k (w_cq w)) \<inter> wc_wr_id ` set (drop k (w_cq w)) = {}" by auto
    moreover have "set (w_cq w) = set (take k (w_cq w)) \<union> set (drop k (w_cq w))"
      by (metis append_take_drop_id set_append)
    ultimately have aw: "awaited ?cm = wc_wr_id ` set (drop k (w_cq w))"
      using less.prems(3) by (auto simp: awaited_fold_True)
    show "\<exists>t'. poll_all v n cm (w\<lparr>w_tick := t\<rparr>) = Some (w\<lparr>w_tick := t\<rparr>\<lparr>w_cq := [], w_tick := t'\<rparr>)"
    proof (cases "drop k (w_cq w) = []")
      case True
      then have "is_all_complete ?cm" using d aw by (simp add: is_all_complete_awaited)
      then show ?thesis using p True by (subst poll_all.simps) (auto simp: Let_def)
    next
      case False
      then have "\<not> is_all_complete ?cm" using d aw by (simp add: is_all_complete_awaited)
      moreover have "\<exists>t'. poll_all v n ?cm ?w = Some (?w\<lparr>w_cq := [], w_tick := t'\<rparr>)"
        using less.prems(2,4) k False aw d by (intro less.hyps) (auto simp: drop_map [symmetric])
      ultimately show ?thesis using p by (subst poll_all.simps) (auto simp: Let_def)
    qed
  qed
qed

subsection \<open>Posting the groups\<close>

lemma run_wr_signaled [simp]: "run_wr sid (wr\<lparr>wr_signaled := b\<rparr>) = run_wr sid wr"
  by (simp add: fun_eq_iff run_wr_def wr_data_def Let_def split: ibv_wr_opcode.split option.split)

lemma run_wr_cq [simp]:
  "w_cq (run_wr sid wr w) = w_cq w" "w_tick (run_wr sid wr w) = w_tick w"
  "w_wrid_wc_map (run_wr sid wr w) = w_wrid_wc_map w" "w_servers (run_wr sid wr w) = w_servers w"
  by (simp_all add: run_wr_def Let_def split: ibv_wr_opcode.split)

lemma run_wr_cq_update:
  "run_wr sid wr (w\<lparr>w_cq := c\<rparr>) = (run_wr sid wr w)\<lparr>w_cq := c\<rparr>"
  by (simp add: run_wr_def Let_def split: ibv_wr_opcode.split)

lemma fold_run_wr_cq [simp]:
  "w_cq (fold (run_wr sid) srs w) = w_cq w"
  by (induction srs arbitrary: w) simp_all

lemma fold_run_wr_cq_update:
  "fold (run_wr sid) srs (w\<lparr>w_cq := c\<rparr>) = (fold (run_wr sid) srs w)\<lparr>w_cq := c\<rparr>"
  by (induction srs arbitrary: w) (simp_all add: run_wr_cq_update)

text \<open>Chains built by the client: not empty, no request signaled yet.\<close>

definition plain_srs :: "IbvSrList list \<Rightarrow> bool" where
  "plain_srs srs \<longleftrightarrow> (\<forall>l \<in> set srs. sr_list l \<noteq> [] \<and> (\<forall>wr \<in> set (sr_list l). \<not> wr_signaled wr))"

definition group_wrs :: "IbvSrList list \<Rightarrow> ibv_send_wr list" where
  "group_wrs ls = concat (map sr_list ls)"

definition group_id :: "byte \<times> IbvSrList list \<Rightarrow> 64 word" where
  "group_id g = wr_id (last (group_wrs (snd g)))"

definition run_srs :: "IbvSrList list \<Rightarrow> world \<Rightarrow> world" where
  "run_srs srs = fold (\<lambda>(sid, ls). fold (run_wr sid) (group_wrs ls)) (server_id_sr_list_map srs)"

definition good_group :: "byte \<times> IbvSrList list \<Rightarrow> bool" where
  "good_group g \<longleftrightarrow> snd g \<noteq> [] \<and> plain_srs (snd g)"

lemma good_groups:
  "plain_srs srs \<Longrightarrow> g \<in> set (server_id_sr_list_map srs) \<Longrightarrow> good_group g"
  by (auto simp: server_id_sr_list_map_def good_group_def plain_srs_def filter_empty_conv)

lemma group_wrs_not_Nil: "good_group g \<Longrightarrow> group_wrs (snd g) \<noteq> []"
  by (auto simp: good_group_def plain_srs_def group_wrs_def neq_Nil_conv)

lemma merge_groups_good:
  "(\<forall>g \<in> set gs. good_group g) \<Longrightarrow> merge_groups gs =
     Some (map (\<lambda>g. (fst g, butlast (group_wrs (snd g)) @ [(last (group_wrs (snd g)))\<lparr>wr_signaled := True\<rparr>],
                     group_id g)) gs)"
proof (induction gs rule: merge_groups.induct)
  case (2 sid ls gs)
  then have "good_group (sid, ls)" by simp
  then have "ib_merge_sr_lists ls = Some (butlast (group_wrs ls) @ [(last (group_wrs ls))\<lparr>wr_signaled := True\<rparr>],
     group_id (sid, ls))"
    by (auto simp: good_group_def plain_srs_def ib_merge_sr_lists_def group_wrs_def group_id_def Let_def)
  then show ?case using 2 by simp
qed simp

lemma post_good_group:
  assumes "rc_verbs v" "good_group g"
  shows "ibv_post_send v (fst g) (butlast (group_wrs (snd g)) @ [(last (group_wrs (snd g)))\<lparr>wr_signaled := True\<rparr>]) w
     = (fold (run_wr (fst g)) (group_wrs (snd g)) w)\<lparr>w_cq := w_cq w @ [\<lparr>wc_wr_id = group_id g, wc_success = True\<rparr>]\<rparr>"
proof -
  let ?ws = "group_wrs (snd g)"
  have "fold (run_wr (fst g)) ?ws w = run_wr (fst g) (last ?ws) (fold (run_wr (fst g)) (butlast ?ws) w)"
    using group_wrs_not_Nil [OF assms(2)] fold_append [of "run_wr (fst g)" "butlast ?ws" "[last ?ws]"]
    by (simp add: fun_eq_iff)
  moreover have "concat (map wc_of (butlast ?ws)) = []"
  proof -
    have "\<forall>wr \<in> set ?ws. \<not> wr_signaled wr"
      using assms(2) by (auto simp: good_group_def plain_srs_def group_wrs_def)
    then show ?thesis by (auto simp: wc_of_def dest: in_set_butlastD)
  qed
  ultimately show ?thesis
    by (simp add: rc_post [OF assms(1)] wc_of_def group_id_def)
qed

lemma post_groups_good:
  assumes rc: "rc_verbs v" and "\<forall>g \<in> set gs. good_group g"
  shows "post_groups v (map (\<lambda>g. (fst g, butlast (group_wrs (snd g)) @
        [(last (group_wrs (snd g)))\<lparr>wr_signaled := True\<rparr>], group_id g)) gs) w =
     (fold (\<lambda>g. fold (run_wr (fst g)) (group_wrs (snd g))) gs w)
       \<lparr>w_cq := w_cq w @ map (\<lambda>g. \<lparr>wc_wr_id = group_id g, wc_success = True\<rparr>) gs\<rparr>"
  using assms(2)
proof (induction gs arbitrary: w)
  case Nil
  then show ?case by (simp add: post_groups_def)
next
  case (Cons g gs)
  have *: "fold (\<lambda>g. fold (run_wr (fst g)) (group_wrs (snd g))) gs (w\<lparr>w_cq := c\<rparr>) =
     (fold (\<lambda>g. fold (run_wr (fst g)) (group_wrs (snd g))) gs w)\<lparr>w_cq := c\<rparr>" for w c
    by (induction gs arbitrary: w) (simp_all add: fold_run_wr_cq_update)
  show ?case
    using Cons post_good_group [OF rc, of g w]
    by (simp add: post_groups_def *)
qed

lemma run_srs_cq: "w_cq (run_srs srs w) = w_cq w"
proof -
  have "w_cq (fold (\<lambda>(sid, ls). fold (run_wr sid) (group_wrs ls)) gs w) = w_cq w" for gs
    by (induction gs arbitrary: w) auto
  then show ?thesis by (simp add: run_srs_def)
qed

theorem rdma_post_sr_lists_sync_returns:
  assumes rc: "rc_verbs v" and plain: "plain_srs srs" and cq: "w_cq w = []"
    and ids: "distinct (map group_id (server_id_sr_list_map srs))"
  shows "\<exists>t. rdma_post_sr_lists_sync v srs w = Some ((run_srs srs w)\<lparr>w_tick := t\<rparr>)"
proof -
  let ?gs = "server_id_sr_list_map srs"
  let ?wcs = "map (\<lambda>g. \<lparr>wc_wr_id = group_id g, wc_success = True\<rparr>) ?gs"
  let ?cm = "fold (\<lambda>g. AList.update (group_id g) False) ?gs []"
  let ?w = "(run_srs srs w)\<lparr>w_cq := ?wcs\<rparr>"
  have good: "\<forall>g \<in> set ?gs. good_group g" using good_groups [OF plain] by blast
  have "fold (\<lambda>(_, _, i). AList.update i False) (map (\<lambda>g. (fst g, butlast (group_wrs (snd g)) @
        [(last (group_wrs (snd g)))\<lparr>wr_signaled := True\<rparr>], group_id g)) ?gs) [] = ?cm"
    by (simp add: fold_map o_def)
  then have eq: "rdma_post_sr_lists_sync v srs w = poll_all v (length ?gs) ?cm ?w"
    using post_groups_good [OF rc good, of w] cq
    by (simp add: rdma_post_sr_lists_sync_def merge_groups_good [OF good] run_srs_def case_prod_unfold Let_def)
  have d: "distinct (map fst ?cm)" by (rule distinct_fold_update) simp
  have "awaited (fold (\<lambda>g. AList.update (group_id g) False) gs cm) = awaited cm \<union> group_id ` set gs" for gs cm
    by (induction gs arbitrary: cm) (auto simp: awaited_update_False)
  from this [of ?gs "[]"] have aw: "awaited ?cm = wc_wr_id ` set ?wcs"
    by (simp add: awaited_def image_image)
  show ?thesis
  proof (cases "?gs = []")
    case True
    obtain k where "ibv_poll_cq v 0 ?w = (take k (w_cq ?w), ?w\<lparr>w_cq := drop k (w_cq ?w), w_tick := Suc (w_tick ?w)\<rparr>)"
      by (rule rc_poll [OF rc])
    then show ?thesis
      unfolding eq using True cq run_srs_cq [of srs w]
      by (subst poll_all.simps) (auto simp: is_all_complete_def intro!: exI [of _ "Suc (w_tick (run_srs srs w))"])
  next
    case False
    have "\<exists>t. poll_all v (length ?gs) ?cm ?w = Some (?w\<lparr>w_cq := [], w_tick := t\<rparr>)"
      by (rule poll_all_returns [OF rc]) (use False d aw ids in \<open>simp_all add: o_def\<close>)
    moreover have "(run_srs srs w)\<lparr>w_cq := []\<rparr> = run_srs srs w" using run_srs_cq [of srs w] cq by simp
    ultimately show ?thesis unfolding eq by simp
  qed
qed

lemma batch_sync_eq: "rdma_post_sr_list_batch_sync v b w = rdma_post_sr_lists_sync v (concat b) w"
  by (simp add: rdma_post_sr_list_batch_sync_def rdma_post_sr_lists_sync_def)

subsection \<open>Single transfers\<close>

lemma post_one:
  assumes "rc_verbs v" "w_cq w = []" "wr_signaled sr"
  shows "\<exists>t wc. rdma_poll_one_completion v (rdma_post_send_batch_async v sid [sr] w) =
     Some (wc, (run_wr (ucast sid) sr w)\<lparr>w_tick := t\<rparr>)"
proof -
  let ?w = "(run_wr (ucast sid) sr w)\<lparr>w_cq := [\<lparr>wc_wr_id = wr_id sr, wc_success = True\<rparr>]\<rparr>"
  have "rdma_post_send_batch_async v sid [sr] w = ?w"
    using assms by (simp add: rdma_post_send_batch_async_def rc_post wc_of_def)
  moreover have "\<exists>t. rdma_poll_one_completion v ?w =
     Some (\<lparr>wc_wr_id = wr_id sr, wc_success = True\<rparr>, ?w\<lparr>w_cq := [], w_tick := t\<rparr>)"
    by (rule rdma_poll_one_returns [OF assms(1)]) simp
  moreover have "?w\<lparr>w_cq := [], w_tick := t\<rparr> = (run_wr (ucast sid) sr w)\<lparr>w_tick := t\<rparr>" for t
    using assms(2) by (simp add: world.equality)
  ultimately show ?thesis by auto
qed

text \<open>
  The \<open>_sync\<close> transfers wait for the polling thread to record their completion.
  When no other thread does, they never return.
\<close>

lemma nm_poll_completion_stuck:
  assumes "background v = Some" "w_wrid_wc_map w i = None"
  shows "nm_poll_completion_sync v [(i, None)] w = None"
proof (rule ccontr)
  assume "nm_poll_completion_sync v [(i, None)] w \<noteq> None"
  then obtain y where "nm_poll_completion_sync v [(i, None)] w = Some y" by blast
  moreover have "background v = Some \<longrightarrow> wait = [(i, None)] \<longrightarrow> w_wrid_wc_map w i = None \<longrightarrow> False"
    if ret: "nm_poll_completion_sync v wait w = Some y" for v wait w y
  proof (rule nm_poll_completion_sync.raw_induct [OF _ ret], intro impI)
    fix f v wait w y
    assume IH: "\<And>v wait w y. f v wait w = Some y \<Longrightarrow>
        background v = Some \<longrightarrow> wait = [(i, None)] \<longrightarrow> w_wrid_wc_map w i = None \<longrightarrow> False"
      and body: "(if ib_is_all_wrid_finished wait then Some (wait, w)
         else background v w \<bind> (\<lambda>w. case nm_check_completion wait w of (x, xa) \<Rightarrow> f v x xa)) = Some y"
      and h: "background v = Some" "wait = [(i, None)]" "w_wrid_wc_map w i = None"
    from body h have "f v [(i, None)] w = Some y" by (simp add: ib_is_all_wrid_finished_def)
    from IH [OF this] h show False by simp
  qed
  ultimately show False using assms by blast
qed

section \<open>Claims\<close>

text \<open>Verbs that take effect at once, and nodes that answer by their own message loop.\<close>

definition direct_env :: env where
  "direct_env = \<lparr>
     ibv_post_send = (\<lambda>sid srs w. (fold (run_wr sid) srs w)\<lparr>w_cq := w_cq w @ concat (map wc_of srs)\<rparr>),
     ibv_poll_cq = (\<lambda>n w. (take n (w_cq w), w\<lparr>w_cq := drop n (w_cq w), w_tick := Suc (w_tick w)\<rparr>)),
     udp_call = (\<lambda>sid msg w. map_option (\<lambda>(reply, s). (reply, w\<lparr>w_servers := (w_servers w)(ucast sid := s)\<rparr>))
        (server_dispatch (\<lambda>qp _. qp) qp_demo msg (w_servers w (ucast sid)))),
     background = Some,
     uninit_meta = \<lparr>ma_meta_info_type = 0, ma_server_id_list = replicate MAX_REP_NUM 0, ma_padding = replicate 5 0, ma_addr_list = replicate MAX_REP_NUM 0\<rparr>,
     uninit_mr = (\<lambda>_. \<lparr>mr_addr = 0, mr_rkey = 0\<rparr>), uninit_sid = (\<lambda>_. 0), uninit_u64 = 0\<rparr>"

lemma direct_rc: "rc_verbs direct_env"
proof -
  have "fst (ibv_poll_cq direct_env n (w\<lparr>w_tick := w_tick w + 0\<rparr>)) \<noteq> []" if "0 < n" "w_cq w \<noteq> []" for n w
    using that by (simp add: direct_env_def)
  then show ?thesis unfolding rc_verbs_def by (auto simp: direct_env_def)
qed

definition world_demo :: world where
  "world_demo = \<lparr>w_local = (\<lambda>_. 0), w_remote = (\<lambda>_ _. 0), w_cq = [], w_tick = 0,
     w_wrid_wc_map = Map.empty, w_servers = (\<lambda>_. server_demo)\<rparr>"


definition srs_demo :: "IbvSrList list" where
  "srs_demo = [\<lparr>sr_list = [wr0\<lparr>wr_id := 5, wr_inl := Some [1, 2], wr_opcode := IBV_WR_RDMA_WRITE, wr_remote_addr := 0x100\<rparr>],
                sr_server_id = 3\<rparr>]"

lemma srs_demo_ok:
  "plain_srs srs_demo" "distinct (map group_id (server_id_sr_list_map srs_demo))"
  by (simp_all add: plain_srs_def srs_demo_def wr0_def server_id_sr_list_map_def)



text \<open>
  C14. Waiting for a completion through \<open>wrid_wc_map_\<close> does not end
  unless some other thread records completions there: polling the completion queue
  itself is not part of the wait.
\<close>

theorem wait_needs_polling:
  assumes "background v = Some" "w_wrid_wc_map w i = None"
  shows "nm_poll_completion_sync v [(i, None)] w = None"
  by (rule nm_poll_completion_stuck [OF assms])

theorem wait_needs_polling_witness: "nm_poll_completion_sync direct_env [(0, None)] world_demo = None"
  by (rule wait_needs_polling) (simp_all add: direct_env_def world_demo_def)

end
