(* ===== verification/ClientMM.thy ===== *)
theory ClientMM
  imports Nm "HOL-Library.Multiset"
begin

text \<open>
  The client's allocator, \<open>src/src/client_mm.h\<close> and \<open>client_mm.cc\<close>: the static map of
  replicated blocks, requests for whole blocks to the memory nodes, the queue of
  subblocks that key-value pairs are written to, and the recovery of this state from
  the metadata and the log chain on the nodes. Exits, failed assertions, traps and
  loops that do not end are \<^const>\<open>None\<close>.
\<close>

section \<open>State\<close>

record ClientMMBlock =
  mmb_mr_info_list :: "MrInfo list"
  mmb_server_id_list :: "byte list"
  mmb_bmap :: "bool list"
  mmb_num_allocated :: "32 word"
  mmb_prev_free_subblock_idx :: int
  mmb_next_free_subblock_idx :: int
  mmb_next_free_subblock_cnt :: int

datatype ClientAllocType = TYPE_SUBTABLE | TYPE_KVBLOCK

primrec ClientAllocType_code :: "ClientAllocType \<Rightarrow> byte" where
  "ClientAllocType_code TYPE_SUBTABLE = 1"
| "ClientAllocType_code TYPE_KVBLOCK = 2"

record ClientMMAllocCtx =
  ac_server_id_list :: "byte list"
  ac_addr_list :: "addr list"
  ac_prev_addr_list :: "addr list"
  ac_next_addr_list :: "addr list"
  ac_rkey_list :: "32 word list"
  ac_prev_rkey_list :: "32 word list"
  ac_next_rkey_list :: "32 word list"
  ac_num_subblocks :: "32 word"
  ac_need_change_prev :: bool

record ClientMMAllocSubtableCtx =
  sc_server_id :: byte
  sc_addr :: addr

record RecoverLogInfo =
  rl_local_tail_addr :: addr
  rl_key_len :: "32 word"
  rl_val_len :: "32 word"
  rl_remote_addr :: addr
  rl_server_id :: byte

text \<open>A subblock is given by its first \<open>num_replication_\<close> replicas; the rest is never read.\<close>

record SubblockInfo =
  sb_addr_list :: "addr list"
  sb_rkey_list :: "32 word list"
  sb_server_id_list :: "byte list"

record ClientMM =
  mm_num_replication :: "32 word"
  mm_num_idx_rep :: "32 word"
  mm_num_memory :: "32 word"
  mm_mm_blocks :: "ClientMMBlock list"
  mm_cur_mm_block_idx :: "32 word"
  mm_subblock_num :: "32 word"
  mm_last_allocated :: "32 word"
  mm_bmap_block_num :: "32 word"
  mm_pr_log_server_id :: byte
  mm_pr_log_head :: addr
  mm_client_meta_addr :: addr
  mm_client_gc_addr :: addr
  mm_server_limit_addr :: addr
  mm_server_kv_area_off :: "64 word"
  mm_server_kv_area_addr :: addr
  mm_server_num_blocks :: "64 word"
  mm_recover_buf :: addr
  mm_recover_lkey :: "32 word"
  mm_recover_log_info_list :: "RecoverLogInfo list"
  mm_recover_addr_is_allocated :: "addr \<Rightarrow> bool"
  mm_log_tail_st_ptr :: addr
  mm_tmp_buf :: addr
  mm_subblock_free_queue :: "SubblockInfo list"
  mm_last_allocated_info :: SubblockInfo
  mm_mm_block_sz :: "64 word"
  mm_subblock_sz :: "64 word"
  mm_alloc_block_map :: "addr \<rightharpoonup> addr list"
  mm_total_block_map :: "addr \<rightharpoonup> addr list"
  mm_free_faa_map :: "addr \<times> byte \<rightharpoonup> 64 word"

abbreviation num_rep :: "ClientMM \<Rightarrow> nat" where
  "num_rep mm \<equiv> unat (mm_num_replication mm)"

section \<open>The static block map\<close>

text \<open>As on the memory node, with the node number in the low byte of an address.\<close>

fun map_replicas ::
    "addr \<Rightarrow> 64 word \<Rightarrow> nat \<Rightarrow> nat \<Rightarrow> nat list \<Rightarrow> addr list \<Rightarrow> (addr list \<times> addr list) option" where
  "map_replicas limit block_size num_memory st_sid [] ptrs = Some ([], ptrs)"
| "map_replicas limit block_size num_memory st_sid (i # is) ptrs =
     (let sid = replica_sid num_memory st_sid i in
      if limit \<le> ptrs ! sid then None
      else if ptrs ! sid AND 1 \<noteq> 0 then None
      else do {
        (addrs, ptrs') \<leftarrow> map_replicas limit block_size num_memory st_sid is
                           (ptrs[sid := ptrs ! sid + block_size]);
        Some ((ptrs ! sid OR of_nat sid) # addrs, ptrs') })"

definition map_push :: "addr \<Rightarrow> addr \<Rightarrow> (addr \<rightharpoonup> addr list) \<Rightarrow> (addr \<rightharpoonup> addr list)" where
  "map_push k x m = m(k \<mapsto> (case m k of None \<Rightarrow> [] | Some xs \<Rightarrow> xs) @ [x])"

text \<open>The two nested loops over the replicas of one block.\<close>

definition record_pair ::
    "addr list \<Rightarrow> nat \<Rightarrow> nat \<Rightarrow> (addr \<rightharpoonup> addr list) \<times> (addr \<rightharpoonup> addr list)
      \<Rightarrow> ((addr \<rightharpoonup> addr list) \<times> (addr \<rightharpoonup> addr list)) option" where
  "record_pair addr_list i j maps =
     (case maps of (amap, tmap) \<Rightarrow>
        if j = i then Some (amap, tmap)
        else let tmap = map_push (addr_list ! i) (addr_list ! j) tmap in
             if i = 0 then
               (let amap = map_push (addr_list ! i) (addr_list ! j) amap in
                if addr_list ! j = 0 then None else Some (amap, tmap))
             else Some (amap, tmap))"

fun record_js where
  "record_js addr_list i [] maps = Some maps"
| "record_js addr_list i (j # js) maps = do {
     maps \<leftarrow> record_pair addr_list i j maps;
     record_js addr_list i js maps }"

fun record_is where
  "record_is num_replication addr_list [] maps = Some maps"
| "record_is num_replication addr_list (i # is) maps = do {
     (amap, tmap) \<leftarrow> record_js addr_list i [0..<num_replication] maps;
     record_is num_replication addr_list is
       (if num_replication = 1 then map_push (addr_list ! 0) 0 amap else amap, tmap) }"

fun map_blocks ::
    "ClientMM \<Rightarrow> nat \<Rightarrow> nat \<Rightarrow> addr list \<Rightarrow> (addr \<rightharpoonup> addr list) \<times> (addr \<rightharpoonup> addr list)
      \<Rightarrow> ((addr \<rightharpoonup> addr list) \<times> (addr \<rightharpoonup> addr list)) option" where
  "map_blocks mm 0 block_cnt ptrs maps = Some maps"
| "map_blocks mm (Suc n) block_cnt ptrs maps =
     (let num_memory = unat (mm_num_memory mm) in
      if num_memory = 0 then None
      else do {
        st_sid \<leftarrow> skip_full ptrs (mm_server_limit_addr mm) num_memory (block_cnt mod num_memory);
        (addrs, ptrs') \<leftarrow> map_replicas (mm_server_limit_addr mm) (mm_mm_block_sz mm) num_memory
                           st_sid [0..<num_rep mm] ptrs;
        maps \<leftarrow> record_is (num_rep mm) addrs [0..<num_rep mm] maps;
        map_blocks mm n (block_cnt + 1) ptrs' maps })"

definition get_block_map :: "ClientMM \<Rightarrow> ClientMM option" where
  "get_block_map mm =
     (if mm_num_replication mm = 0 then None
      else do {
        let num_rep_blocks = (ucast ((mm_server_num_blocks mm * ucast (mm_num_memory mm))
              div ucast (mm_num_replication mm)) :: 32 word);
        (amap, tmap) \<leftarrow> map_blocks mm (unat num_rep_blocks) 0
              (replicate (unat (mm_num_memory mm)) (mm_server_kv_area_addr mm))
              (mm_alloc_block_map mm, mm_total_block_map mm);
        Some (mm\<lparr>mm_alloc_block_map := amap, mm_total_block_map := tmap\<rparr>) })"

section \<open>Blocks from the memory nodes\<close>

definition get_alloc_hint_rr :: "ClientMM \<Rightarrow> 32 word \<times> ClientMM" where
  "get_alloc_hint_rr mm = (mm_last_allocated mm, mm\<lparr>mm_last_allocated := mm_last_allocated mm + 1\<rparr>)"

text \<open>The reply's union member is read as \<open>mr_info\<close>.\<close>

definition alloc_from_sid ::
    "env \<Rightarrow> Nm \<Rightarrow> 32 word \<Rightarrow> ClientAllocType \<Rightarrow> world \<Rightarrow> (MrInfo \<times> world) option" where
  "alloc_from_sid v nm server_id alloc_type w =
     do {
       let request = \<lparr>msg_type = (if alloc_type = TYPE_KVBLOCK then KVMsgType_code REQ_ALLOC
                                  else KVMsgType_code REQ_ALLOC_SUBTABLE),
             msg_id = ucast (nm_server_id nm), msg_body = BodyMr \<lparr>mr_addr = 0, mr_rkey = 0\<rparr>\<rparr>;
       request \<leftarrow> serialize_kvmsg request;
       (reply, w) \<leftarrow> nm_udp_round_trip v request server_id w;
       reply \<leftarrow> deserialize_kvmsg reply;
       case msg_body reply of BodyMr r \<Rightarrow> Some (r, w) | BodyConn _ \<Rightarrow> None }"

definition mk_subblock :: "ClientMM \<Rightarrow> MrInfo list \<Rightarrow> byte list \<Rightarrow> nat \<Rightarrow> SubblockInfo" where
  "mk_subblock mm mrs sids i =
     \<lparr>sb_addr_list = map (\<lambda>r. mr_addr (mrs ! r) + of_nat i * mm_subblock_sz mm) [0..<num_rep mm],
      sb_rkey_list = map (\<lambda>r. mr_rkey (mrs ! r)) [0..<num_rep mm],
      sb_server_id_list = map (\<lambda>r. sids ! r) [0..<num_rep mm]\<rparr>"

definition mmblock0 :: ClientMMBlock where
  "mmblock0 = \<lparr>mmb_mr_info_list = [], mmb_server_id_list = [], mmb_bmap = [],
     mmb_num_allocated = 0, mmb_prev_free_subblock_idx = 0, mmb_next_free_subblock_idx = 0,
     mmb_next_free_subblock_cnt = 0\<rparr>"

definition mk_mmblock :: "ClientMM \<Rightarrow> MrInfo list \<Rightarrow> byte list \<Rightarrow> ClientMMBlock" where
  "mk_mmblock mm mrs sids = mmblock0\<lparr>mmb_mr_info_list := map (\<lambda>i. mrs ! i) [0..<num_rep mm],
     mmb_server_id_list := map (\<lambda>i. sids ! i) [0..<num_rep mm]\<rparr>"

definition local_reg_blocks :: "MrInfo list \<Rightarrow> byte list \<Rightarrow> ClientMM \<Rightarrow> ClientMM" where
  "local_reg_blocks mrs sids mm =
     (let block = mk_mmblock mm mrs sids;
          subs = map (mk_subblock mm (mmb_mr_info_list block) (mmb_server_id_list block))
                   [unat (mm_bmap_block_num mm)..<unat (mm_subblock_num mm)]
      in mm\<lparr>mm_subblock_free_queue := mm_subblock_free_queue mm @ subs,
            mm_mm_blocks := mm_mm_blocks mm @ [block]\<rparr>)"

text \<open>The metadata record written to the nodes; elements past the replicas keep stack contents.\<close>

definition meta_record :: "env \<Rightarrow> ClientMM \<Rightarrow> ClientAllocType \<Rightarrow> MrInfo list \<Rightarrow> byte list \<Rightarrow> ClientMetaAddrInfo" where
  "meta_record v mm t mrs sids =
     (uninit_meta v)\<lparr>ma_meta_info_type := ClientAllocType_code t,
        ma_server_id_list := fill (num_rep mm) (\<lambda>i. sids ! i) (ma_server_id_list (uninit_meta v)),
        ma_addr_list := fill (num_rep mm) (\<lambda>i. mr_addr (mrs ! i)) (ma_addr_list (uninit_meta v))\<rparr>"

fun write_meta ::
    "(byte list \<Rightarrow> addr \<Rightarrow> 32 word \<Rightarrow> 32 word \<Rightarrow> world \<Rightarrow> world option) \<Rightarrow> Nm \<Rightarrow> byte list \<Rightarrow> addr
      \<Rightarrow> nat list \<Rightarrow> world \<Rightarrow> world option" where
  "write_meta wr nm data a [] w = Some w"
| "write_meta wr nm data a (i # is) w = do {
     rkey \<leftarrow> get_server_rkey nm (of_nat i);
     w \<leftarrow> wr data a rkey (of_nat i) w;
     write_meta wr nm data a is w }"

definition reg_new_space ::
    "env \<Rightarrow> Nm \<Rightarrow> ClientAllocType \<Rightarrow> MrInfo list \<Rightarrow> byte list \<Rightarrow> ClientMM \<times> world \<Rightarrow> (ClientMM \<times> world) option" where
  "reg_new_space v nm alloc_type mrs sids st =
     (case st of (mm, w) \<Rightarrow> do {
        let data = ClientMetaAddrInfo_bytes (meta_record v mm alloc_type mrs sids);
        w \<leftarrow> write_meta (nm_rdma_write_inl_to_sid v) nm data (mm_client_meta_addr mm) [0..<num_rep mm] w;
        let mm = mm\<lparr>mm_client_meta_addr := mm_client_meta_addr mm + of_nat ClientMetaAddrInfo_size\<rparr>;
        Some (if alloc_type = TYPE_KVBLOCK then local_reg_blocks mrs sids mm else mm, w) })"

definition dyn_reg_new_space ::
    "env \<Rightarrow> Nm \<Rightarrow> ClientAllocType \<Rightarrow> MrInfo list \<Rightarrow> byte list \<Rightarrow> ClientMM \<times> world \<Rightarrow> (ClientMM \<times> world) option" where
  "dyn_reg_new_space v nm alloc_type mrs sids st =
     (case st of (mm, w) \<Rightarrow> do {
        let data = ClientMetaAddrInfo_bytes (meta_record v mm alloc_type mrs sids);
        w \<leftarrow> write_meta (nm_rdma_write_inl_to_sid_sync v) nm data (mm_client_meta_addr mm) [0..<num_rep mm] w;
        let mm = mm\<lparr>mm_client_meta_addr := mm_client_meta_addr mm + of_nat ClientMetaAddrInfo_size\<rparr>;
        Some (if alloc_type = TYPE_KVBLOCK then local_reg_blocks mrs sids mm else mm, w) })"

text \<open>
  The replicas of the block at \<open>allocated_addr\<close>, from the static map: a block that is
  not in the map ends the program.
\<close>

fun backup_list :: "Nm \<Rightarrow> addr list \<Rightarrow> nat list \<Rightarrow> ((MrInfo \<times> byte) list) option" where
  "backup_list nm ys [] = Some []"
| "backup_list nm ys (i # is) = do {
     y \<leftarrow> nth_opt ys i;
     let sid = (ucast (y AND 0xFF) :: byte);
     rkey \<leftarrow> get_server_rkey nm sid;
     rest \<leftarrow> backup_list nm ys is;
     Some ((\<lparr>mr_addr = push_bit 8 (drop_bit 8 y), mr_rkey = rkey\<rparr>, sid) # rest) }"

definition replica_mrs ::
    "Nm \<Rightarrow> ClientMM \<Rightarrow> MrInfo \<Rightarrow> 32 word \<Rightarrow> (MrInfo list \<times> byte list) option" where
  "replica_mrs nm mm mr pr_server_id =
     (if mr_addr mr AND 0xFF \<noteq> 0 then None
      else do {
        ys \<leftarrow> mm_alloc_block_map mm (mr_addr mr OR ucast pr_server_id);
        bks \<leftarrow> backup_list nm ys [0..<unat (mm_num_replication mm - 1)];
        Some (mr # map fst bks, ucast pr_server_id # map snd bks) })"

definition get_new_block_from_server :: "env \<Rightarrow> Nm \<Rightarrow> ClientMM \<times> world \<Rightarrow> (ClientMM \<times> world) option" where
  "get_new_block_from_server v nm st =
     (case st of (mm, w) \<Rightarrow> do {
        let (alloc_hint, mm) = get_alloc_hint_rr mm;
        pr_server_id \<leftarrow> get_one_server_id nm alloc_hint;
        (mr, w) \<leftarrow> alloc_from_sid v nm pr_server_id TYPE_KVBLOCK w;
        (mrs, sids) \<leftarrow> replica_mrs nm mm mr pr_server_id;
        reg_new_space v nm TYPE_KVBLOCK mrs sids (mm, w) })"

text \<open>The boolean is False for the return value -1: the node has no space left.\<close>

definition dyn_get_new_block_from_server ::
    "env \<Rightarrow> Nm \<Rightarrow> ClientMM \<times> world \<Rightarrow> (bool \<times> ClientMM \<times> world) option" where
  "dyn_get_new_block_from_server v nm st =
     (case st of (mm, w) \<Rightarrow> do {
        let (alloc_hint, mm) = get_alloc_hint_rr mm;
        pr_server_id \<leftarrow> get_one_server_id nm alloc_hint;
        (mr, w) \<leftarrow> alloc_from_sid v nm pr_server_id TYPE_KVBLOCK w;
        if mr_addr mr = 0 then Some (False, mm, w)
        else do {
          (mrs, sids) \<leftarrow> replica_mrs nm mm mr pr_server_id;
          st \<leftarrow> dyn_reg_new_space v nm TYPE_KVBLOCK mrs sids (mm, w);
          Some (True, st) } })"

text \<open>The first client takes one block from every node and interleaves their subblocks.\<close>

fun init_alloc_blocks ::
    "env \<Rightarrow> Nm \<Rightarrow> nat \<Rightarrow> ClientMM \<times> world \<Rightarrow> ((MrInfo list \<times> byte list) list \<times> ClientMM \<times> world) option" where
  "init_alloc_blocks v nm 0 st = Some ([], st)"
| "init_alloc_blocks v nm (Suc n) (mm, w) = do {
     let (alloc_hint, mm) = get_alloc_hint_rr mm;
     pr_server_id \<leftarrow> get_one_server_id nm alloc_hint;
     (mr, w) \<leftarrow> alloc_from_sid v nm pr_server_id TYPE_KVBLOCK w;
     b \<leftarrow> replica_mrs nm mm mr pr_server_id;
     (bs, st) \<leftarrow> init_alloc_blocks v nm n (mm, w);
     Some (b # bs, st) }"

fun init_reg_blocks ::
    "env \<Rightarrow> Nm \<Rightarrow> (MrInfo list \<times> byte list) list \<Rightarrow> ClientMM \<times> world
      \<Rightarrow> (SubblockInfo list list \<times> ClientMM \<times> world) option" where
  "init_reg_blocks v nm [] st = Some ([], st)"
| "init_reg_blocks v nm ((mrs, sids) # bs) (mm, w) = do {
     let data = ClientMetaAddrInfo_bytes (meta_record v mm TYPE_KVBLOCK mrs sids);
     w \<leftarrow> write_meta (nm_rdma_write_inl_to_sid v) nm data (mm_client_meta_addr mm) [0..<num_rep mm] w;
     let mm = mm\<lparr>mm_client_meta_addr := mm_client_meta_addr mm + of_nat ClientMetaAddrInfo_size\<rparr>;
     let block = mk_mmblock mm mrs sids;
     let q = map (mk_subblock mm (mmb_mr_info_list block) (mmb_server_id_list block))
               [unat (mm_bmap_block_num mm)..<unat (mm_subblock_num mm)];
     (qs, st) \<leftarrow> init_reg_blocks v nm bs (mm\<lparr>mm_mm_blocks := mm_mm_blocks mm @ [block]\<rparr>, w);
     Some (q # qs, st) }"

fun merge_queues :: "nat \<Rightarrow> nat list \<Rightarrow> 'a list list \<Rightarrow> 'a list \<Rightarrow> ('a list \<times> 'a list list) option" where
  "merge_queues num_memory [] qs out = Some (out, qs)"
| "merge_queues num_memory (i # is) qs out = do {
     q \<leftarrow> nth_opt qs (i mod num_memory);
     (case q of [] \<Rightarrow> None
      | x # xs \<Rightarrow> merge_queues num_memory is (qs[i mod num_memory := xs]) (out @ [x])) }"

definition init_reg_space ::
    "env \<Rightarrow> Nm \<Rightarrow> (MrInfo list \<times> byte list) list \<Rightarrow> ClientMM \<times> world \<Rightarrow> (ClientMM \<times> world) option" where
  "init_reg_space v nm blocks st =
     do {
       (qs, mm, w) \<leftarrow> init_reg_blocks v nm blocks st;
       let data_block_num = mm_subblock_num mm - mm_bmap_block_num mm;
       (out, qs) \<leftarrow> merge_queues (unat (mm_num_memory mm)) [0..<unat (mm_num_memory mm * data_block_num)] qs
                      (mm_subblock_free_queue mm);
       if \<exists>q \<in> set qs. q \<noteq> [] then None
       else Some (mm\<lparr>mm_subblock_free_queue := out\<rparr>, w) }"

definition init_get_new_block_from_server :: "env \<Rightarrow> Nm \<Rightarrow> ClientMM \<times> world \<Rightarrow> (ClientMM \<times> world) option" where
  "init_get_new_block_from_server v nm st =
     do {
       (bs, st) \<leftarrow> init_alloc_blocks v nm (unat (mm_num_memory (fst st))) st;
       init_reg_space v nm bs st }"

definition mm_alloc_subtable ::
    "env \<Rightarrow> Nm \<Rightarrow> ClientMM \<times> world \<Rightarrow> (ClientMMAllocSubtableCtx list \<times> ClientMM \<times> world) option" where
  "mm_alloc_subtable v nm st =
     (case st of (mm, w) \<Rightarrow> do {
        let (alloc_hint, mm) = get_alloc_hint_rr mm;
        pr_server_id \<leftarrow> get_one_server_id nm alloc_hint;
        let sids = map (\<lambda>i. (pr_server_id + of_nat i) mod nm_num_server nm) [0..<unat (mm_num_idx_rep mm)];
        (mrs, w) \<leftarrow> fold (\<lambda>sid acc. do {
                        (mrs, w) \<leftarrow> acc;
                        (mr, w) \<leftarrow> alloc_from_sid v nm sid TYPE_SUBTABLE w;
                        Some (mrs @ [mr], w) }) sids (Some ([], w));
        let mr_info_list = mrs @ map (uninit_mr v) [length mrs..<num_rep mm];
        let server_id_list = map ucast sids @ map (uninit_sid v) [length sids..<num_rep mm];
        st \<leftarrow> reg_new_space v nm TYPE_SUBTABLE mr_info_list server_id_list (mm, w);
        Some (map (\<lambda>(mr, sid). \<lparr>sc_server_id = ucast sid, sc_addr = mr_addr mr\<rparr>) (zip mrs sids), st) })"

section \<open>Subblocks\<close>

definition get_aligned_size :: "ClientMM \<Rightarrow> 64 word \<Rightarrow> 64 word option" where
  "get_aligned_size mm sz =
     (if mm_subblock_sz mm = 0 then None
      else Some (if sz mod mm_subblock_sz mm = 0 then sz
                 else (sz div mm_subblock_sz mm + 1) * mm_subblock_sz mm))"

text \<open>
  Nothing of the context but \<open>addr_list[0]\<close> is set when the last node asked has no
  space; the subblock already taken from the queue is then lost.
\<close>

definition mm_alloc ::
    "env \<Rightarrow> Nm \<Rightarrow> 64 word \<Rightarrow> ClientMMAllocCtx \<Rightarrow> ClientMM \<times> world
      \<Rightarrow> (ClientMMAllocCtx \<times> ClientMM \<times> world) option" where
  "mm_alloc v nm sz ctx st =
     (case st of (mm, w) \<Rightarrow> do {
        aligned_size \<leftarrow> get_aligned_size mm sz;
        let num_subblocks_required = (ucast (aligned_size div mm_subblock_sz mm) :: 32 word);
        if num_subblocks_required \<noteq> 1 then None
        else case mm_subblock_free_queue mm of
          [] \<Rightarrow> None
        | alloc_subblock # rest \<Rightarrow> do {
            let mm = mm\<lparr>mm_subblock_free_queue := rest\<rparr>;
            (ok, mm, w) \<leftarrow> (if rest = [] then dyn_get_new_block_from_server v nm (mm, w)
                            else Some (True, mm, w));
            if \<not> ok then Some (ctx\<lparr>ac_addr_list := (ac_addr_list ctx)[0 := 0]\<rparr>, mm, w)
            else case mm_subblock_free_queue mm of
              [] \<Rightarrow> None
            | next_subblock # _ \<Rightarrow> do {
                let n = num_rep mm;
                let lst = mm_last_allocated_info mm;
                Some (ctx\<lparr>ac_need_change_prev := False, ac_num_subblocks := num_subblocks_required,
                       ac_addr_list := fill n (\<lambda>i. sb_addr_list alloc_subblock ! i) (ac_addr_list ctx),
                       ac_rkey_list := fill n (\<lambda>i. sb_rkey_list alloc_subblock ! i) (ac_rkey_list ctx),
                       ac_server_id_list := fill n (\<lambda>i. sb_server_id_list alloc_subblock ! i) (ac_server_id_list ctx),
                       ac_next_addr_list := fill n (\<lambda>i. sb_addr_list next_subblock ! i
                           OR ucast (sb_server_id_list next_subblock ! i)) (ac_next_addr_list ctx),
                       ac_next_rkey_list := fill n (\<lambda>i. sb_rkey_list next_subblock ! i) (ac_next_rkey_list ctx),
                       ac_prev_addr_list := fill n (\<lambda>i. sb_addr_list lst ! i
                           OR ucast (sb_server_id_list lst ! i)) (ac_prev_addr_list ctx),
                       ac_prev_rkey_list := fill n (\<lambda>i. sb_rkey_list lst ! i) (ac_prev_rkey_list ctx)\<rparr>,
                     mm\<lparr>mm_last_allocated_info := alloc_subblock\<rparr>, w) } } })"

text \<open>Give the subblock of \<open>ctx\<close> back to the head of the queue.\<close>

definition mm_free_cur :: "ClientMMAllocCtx \<Rightarrow> ClientMM \<Rightarrow> ClientMM" where
  "mm_free_cur ctx mm =
     (let n = num_rep mm;
          last_allocated = \<lparr>sb_addr_list = map (\<lambda>i. ac_addr_list ctx ! i) [0..<n],
             sb_rkey_list = map (\<lambda>i. ac_rkey_list ctx ! i) [0..<n],
             sb_server_id_list = map (\<lambda>i. ac_server_id_list ctx ! i) [0..<n]\<rparr>;
          last_last_allocated =
            \<lparr>sb_addr_list = map (\<lambda>i. push_bit 8 (drop_bit 8 (ac_prev_addr_list ctx ! i))) [0..<n],
             sb_rkey_list = map (\<lambda>i. ac_prev_rkey_list ctx ! i) [0..<n],
             sb_server_id_list = map (\<lambda>i. ucast (ac_prev_addr_list ctx ! i AND 0xFF)) [0..<n]\<rparr>
      in mm\<lparr>mm_subblock_free_queue := last_allocated # mm_subblock_free_queue mm,
            mm_last_allocated_info := last_last_allocated\<rparr>)"

text \<open>
  Mark the subblock of a replaced slot as free. \<open>1 << (subblock_id % 64)\<close> is an \<open>int\<close>
  shift: x86-64 shifts by the low five bits of the count and the result is
  sign-extended to 64 bits. The key text \<open>\<dots>@\<dots>\<close> of the map is the pair it prints.
\<close>

definition int_shift_1 :: "32 word \<Rightarrow> 64 word" where
  "int_shift_1 k = scast (push_bit (unat k mod 32) (1 :: 32 word))"

definition mm_free :: "64 word \<Rightarrow> ClientMM \<Rightarrow> ClientMM option" where
  "mm_free orig_slot_val mm =
     (let bs = le_bytes 8 orig_slot_val;
          slot_server_id = bs ! 2;
          kv_raddr = HashIndexConvert40To64Bits (drop 3 bs)
      in if mm_mm_block_sz mm = 0 \<or> mm_subblock_sz mm = 0 then None
         else let subblock_id = (ucast ((kv_raddr mod mm_mm_block_sz mm) div mm_subblock_sz mm) :: 32 word);
                  block_raddr = kv_raddr - (kv_raddr mod mm_mm_block_sz mm);
                  subblock_8byte_offset = subblock_id div 64;
                  bmap_addr = block_raddr + ucast subblock_8byte_offset * 8;
                  add_value = int_shift_1 (subblock_id mod 64)
              in if block_raddr + mm_subblock_sz mm * ucast (mm_bmap_block_num mm) < bmap_addr then None
                 else let k = (bmap_addr, slot_server_id);
                          old = (case mm_free_faa_map mm k of None \<Rightarrow> 0 | Some x \<Rightarrow> x)
                      in Some (mm\<lparr>mm_free_faa_map := (mm_free_faa_map mm)(k \<mapsto> old + add_value)\<rparr>))"

text \<open>The longest run of free subblocks of a block, from subblock 1 on.\<close>

function free_run :: "bool list \<Rightarrow> nat \<Rightarrow> nat \<Rightarrow> nat \<Rightarrow> nat" where
  "free_run bmap num i j = (if i + j < num \<and> \<not> bmap ! (i + j) then free_run bmap num i (j + 1) else j)"
  by pat_completeness auto
termination
  by (relation "measure (\<lambda>(bmap, num, i, j). num - (i + j))") auto

declare free_run.simps [simp del]

lemma free_run_ge: "j \<le> free_run bmap num i j"
  by (induction bmap num i j rule: free_run.induct) (subst free_run.simps, auto)

lemma free_run_pos: "i < num \<Longrightarrow> \<not> bmap ! i \<Longrightarrow> 0 < free_run bmap num i 0"
  using free_run_ge [of 1 bmap num i] by (subst free_run.simps) simp

function longest_run :: "bool list \<Rightarrow> nat \<Rightarrow> nat \<Rightarrow> int \<times> int \<Rightarrow> int \<times> int" where
  "longest_run bmap num i best =
     (if num \<le> i then best
      else if bmap ! i then longest_run bmap num (i + 1) best
      else let j = free_run bmap num i 0
           in longest_run bmap num (i + j) (if snd best < int j then (int i, int j) else best))"
  by pat_completeness auto
termination
  by (relation "measure (\<lambda>(bmap, num, i, best). num - i)") (auto simp: free_run_pos diff_less_mono2)

text \<open>A bitmap shorter than the block is read out of bounds.\<close>

definition update_mm_block_next :: "ClientMM \<Rightarrow> ClientMMBlock \<Rightarrow> ClientMMBlock option" where
  "update_mm_block_next mm block =
     (if length (mmb_bmap block) < unat (mm_subblock_num mm) then None
      else let (max_idx, max_cnt) = longest_run (mmb_bmap block) (unat (mm_subblock_num mm)) 1 (-1, -1)
           in Some (block\<lparr>mmb_prev_free_subblock_idx := mmb_next_free_subblock_idx block,
                mmb_next_free_subblock_idx := max_idx, mmb_next_free_subblock_cnt := max_cnt\<rparr>))"

section \<open>Recovery\<close>

definition mm_recover_prepare_space :: "addr \<Rightarrow> 32 word \<Rightarrow> ClientMM \<Rightarrow> ClientMM" where
  "mm_recover_prepare_space buf lkey mm =
     (let tmp = buf + of_nat CLIENT_META_LEN
      in mm\<lparr>mm_recover_buf := buf, mm_recover_lkey := lkey, mm_tmp_buf := tmp,
            mm_log_tail_st_ptr := tmp + of_nat CLIENT_META_LEN\<rparr>)"

definition mm_get_addr_meta :: "env \<Rightarrow> Nm \<Rightarrow> ClientMM \<Rightarrow> world \<Rightarrow> world option" where
  "mm_get_addr_meta v nm mm w =
     do {
       rkey \<leftarrow> get_server_rkey nm 0;
       nm_rdma_read_from_sid v (mm_recover_buf mm) (mm_recover_lkey mm) (of_nat CLIENT_META_LEN)
         (mm_client_meta_addr mm - of_nat ClientLogMetaInfo_size) rkey 0 w }"

text \<open>Follow the \<open>next\<close> pointers of the log from its head until a null pointer.\<close>

partial_function (option) traverse_log ::
    "env \<Rightarrow> Nm \<Rightarrow> addr \<Rightarrow> 64 word \<Rightarrow> nat \<Rightarrow> ClientMM \<times> world \<Rightarrow> (ClientMM \<times> world) option" where
  [code]: "traverse_log v nm ptr_addr ptr_sid cnt st =
     (if ptr_addr = 0 then Some st
      else case st of (mm, w) \<Rightarrow> do {
        rkey \<leftarrow> get_server_rkey nm (ucast ptr_sid);
        w \<leftarrow> nm_rdma_read_from_sid v (mm_tmp_buf mm) (mm_recover_lkey mm) (ucast (mm_subblock_sz mm))
               ptr_addr rkey (ucast ptr_sid) w;
        let head = load_KVLogHeader (w_local w) (mm_tmp_buf mm);
        let tail_addr = mm_tmp_buf mm + of_nat KVLogHeader_size + ucast (lh_key_length head)
              + ucast (lh_value_length head);
        let slot = mm_log_tail_st_ptr mm + of_nat (cnt * KVLogTail_size);
        let w = w\<lparr>w_local := store_bytes slot (load_bytes KVLogTail_size (w_local w) tail_addr) (w_local w)\<rparr>;
        let tail = load_KVLogTail (w_local w) tail_addr;
        let info = \<lparr>rl_local_tail_addr = slot, rl_key_len = ucast (lh_key_length head),
              rl_val_len = lh_value_length head, rl_remote_addr = ptr_addr, rl_server_id = ucast ptr_sid\<rparr>;
        if ptr_addr AND 0xFF \<noteq> 0 then None
        else do {
          let mm = mm\<lparr>mm_recover_log_info_list := mm_recover_log_info_list mm @ [info],
                mm_recover_addr_is_allocated :=
                  (mm_recover_addr_is_allocated mm)(ptr_addr OR ptr_sid := True)\<rparr>;
          traverse_log v nm (HashIndexConvert40To64Bits (lt_next_addr tail))
            (ucast (lt_next_addr tail ! 5)) (cnt + 1) (mm, w) } })"

definition mm_traverse_log :: "env \<Rightarrow> Nm \<Rightarrow> ClientMM \<times> world \<Rightarrow> (ClientMM \<times> world) option" where
  "mm_traverse_log v nm st =
     (case st of (mm, w) \<Rightarrow>
        let log_meta_info = load_ClientLogMetaInfo (w_local w) (mm_recover_buf mm)
        in traverse_log v nm
             (lm_pr_log_head log_meta_info + ucast (mm_bmap_block_num mm) * mm_subblock_sz mm)
             (ucast (lm_pr_server_id log_meta_info)) 0 (mm, w))"

definition gen_subblock_info :: "ClientMM \<Rightarrow> ClientMMBlock \<Rightarrow> 32 word \<Rightarrow> SubblockInfo" where
  "gen_subblock_info mm block subblock_idx =
     \<lparr>sb_addr_list = map (\<lambda>i. mr_addr (mmb_mr_info_list block ! i) + ucast subblock_idx * mm_subblock_sz mm) [0..<num_rep mm],
      sb_rkey_list = map (\<lambda>i. mr_rkey (mmb_mr_info_list block ! i)) [0..<num_rep mm],
      sb_server_id_list = map (\<lambda>i. mmb_server_id_list block ! i) [0..<num_rep mm]\<rparr>"

text \<open>The scan of one recovered block; the tuple is the queue head, the last allocation and the queues.\<close>

definition recover_subblock ::
    "ClientMM \<Rightarrow> ClientMMBlock \<Rightarrow> addr \<Rightarrow> addr \<Rightarrow> nat
      \<Rightarrow> SubblockInfo \<times> SubblockInfo \<times> SubblockInfo list list \<Rightarrow> SubblockInfo \<times> SubblockInfo \<times> SubblockInfo list list" where
  "recover_subblock mm block queue_head_pr_addr last_allocated_pr_addr i acc =
     (case acc of (queue_head, last_alloc, queues) \<Rightarrow>
        let sid = mmb_server_id_list block ! 0;
            cur_pr_addr = (mr_addr (mmb_mr_info_list block ! 0) + mm_subblock_sz mm * of_nat i) OR ucast sid;
            info = gen_subblock_info mm block (of_nat i)
        in if cur_pr_addr = queue_head_pr_addr then (info, last_alloc, queues)
           else if cur_pr_addr = last_allocated_pr_addr then (queue_head, info, queues)
           else if mm_recover_addr_is_allocated mm cur_pr_addr then (queue_head, last_alloc, queues)
           else (queue_head, last_alloc, queues[unat sid := queues ! unat sid @ [info]]))"

partial_function (option) recover_blocks ::
    "Nm \<Rightarrow> mem \<Rightarrow> addr \<Rightarrow> addr \<Rightarrow> addr \<Rightarrow> ClientMM \<Rightarrow> SubblockInfo \<times> SubblockInfo \<times> SubblockInfo list list
      \<Rightarrow> (ClientMM \<times> SubblockInfo \<times> SubblockInfo \<times> SubblockInfo list list) option" where
  [code]: "recover_blocks nm m p queue_head_pr_addr last_allocated_pr_addr mm acc =
     (let meta = load_ClientMetaAddrInfo m p;
          p' = p + of_nat ClientMetaAddrInfo_size
      in if ma_meta_info_type meta = 0 then Some (mm, acc)
         else if ma_meta_info_type meta = ClientAllocType_code TYPE_SUBTABLE
         then recover_blocks nm m p' queue_head_pr_addr last_allocated_pr_addr mm acc
         else do {
           rkeys \<leftarrow> those (map (\<lambda>i. get_server_rkey nm (ma_server_id_list meta ! i)) [0..<num_rep mm]);
           let block = mmblock0\<lparr>
                 mmb_mr_info_list := map (\<lambda>i. \<lparr>mr_addr = ma_addr_list meta ! i, mr_rkey = rkeys ! i\<rparr>) [0..<num_rep mm],
                 mmb_server_id_list := map (\<lambda>i. ma_server_id_list meta ! i) [0..<num_rep mm]\<rparr>;
           let acc = fold (recover_subblock mm block queue_head_pr_addr last_allocated_pr_addr)
                       [unat (mm_bmap_block_num mm)..<unat (mm_subblock_num mm)] acc;
           recover_blocks nm m p' queue_head_pr_addr last_allocated_pr_addr
             (mm\<lparr>mm_mm_blocks := mm_mm_blocks mm @ [block]\<rparr>) acc })"

text \<open>The final loop takes one subblock of every non-empty queue per round.\<close>

function interleave :: "'a list list \<Rightarrow> 'a list" where
  "interleave qs = (if \<forall>q \<in> set qs. q = [] then []
     else map hd (filter (\<lambda>q. q \<noteq> []) qs) @ interleave (map tl qs))"
  by pat_completeness auto
termination
proof (relation "measure (\<lambda>qs. sum_list (map length qs))", goal_cases)
  case (2 qs)
  have "sum_list (map length (map tl qs)) < sum_list (map length qs)" if "q \<in> set qs" "q \<noteq> []" for q
    using that
  proof (induction qs)
    case (Cons p qs)
    have le: "sum_list (map length (map tl qs)) \<le> sum_list (map length qs)"
      by (induction qs) auto
    show ?case
    proof (cases "q = p")
      case True
      then have "length (tl p) < length p" using Cons.prems by simp
      then show ?thesis using le by simp
    next
      case False
      then have "sum_list (map length (map tl qs)) < sum_list (map length qs)" using Cons by simp
      then show ?thesis by simp
    qed
  qed simp
  with 2 show ?case by auto
qed simp

definition mm_recover_mm_blocks :: "env \<Rightarrow> Nm \<Rightarrow> ClientMM \<times> world \<Rightarrow> ClientMM option" where
  "mm_recover_mm_blocks v nm st =
     (case st of (mm, w) \<Rightarrow> do {
        let infos = mm_recover_log_info_list mm;
        let n = length infos;
        let mm = mm\<lparr>mm_cur_mm_block_idx := -1\<rparr>;
        if n = 0 then None
        else do {
          let queue_head_pr_addr = rl_remote_addr (infos ! (n - 1)) OR ucast (rl_server_id (infos ! (n - 1)));
          let last_allocated_pr_addr = (if 1 < n
                then rl_remote_addr (infos ! (n - 2)) OR ucast (rl_server_id (infos ! (n - 2)))
                else uninit_u64 v);
          let uninit_sb = \<lparr>sb_addr_list = map (\<lambda>i. mr_addr (uninit_mr v i)) [0..<num_rep mm],
                sb_rkey_list = map (\<lambda>i. mr_rkey (uninit_mr v i)) [0..<num_rep mm],
                sb_server_id_list = map (uninit_sid v) [0..<num_rep mm]\<rparr>;
          (mm, queue_head, last_alloc, queues) \<leftarrow>
            recover_blocks nm (w_local w) (mm_recover_buf mm + of_nat ClientLogMetaInfo_size)
              queue_head_pr_addr last_allocated_pr_addr mm
              (uninit_sb, mm_last_allocated_info mm, replicate (unat (mm_num_memory mm)) []);
          Some (mm\<lparr>mm_last_allocated_info := last_alloc,
                   mm_subblock_free_queue := mm_subblock_free_queue mm @ queue_head # interleave queues\<rparr>) } })"

text \<open>\<open>buf\<close> and \<open>lkey\<close> are the fresh recovery buffer and its registration.\<close>

definition mm_recovery :: "env \<Rightarrow> Nm \<Rightarrow> addr \<Rightarrow> 32 word \<Rightarrow> ClientMM \<times> world \<Rightarrow> (ClientMM \<times> world) option" where
  "mm_recovery v nm buf lkey st =
     (case st of (mm, w) \<Rightarrow> do {
        let mm = mm_recover_prepare_space buf lkey mm;
        w \<leftarrow> mm_get_addr_meta v nm mm w;
        (mm, w) \<leftarrow> mm_traverse_log v nm (mm, w);
        mm \<leftarrow> mm_recover_mm_blocks v nm (mm, w);
        Some (mm, w) })"

definition mm_alloc_log_info :: "RecoverLogInfo \<Rightarrow> ClientMM \<Rightarrow> mem \<Rightarrow> ClientMMAllocCtx \<Rightarrow> ClientMMAllocCtx option" where
  "mm_alloc_log_info log_info mm m ctx =
     do {
       let sz = rl_key_len log_info + rl_val_len log_info + of_nat (KVLogHeader_size + KVLogTail_size);
       aligned_size \<leftarrow> get_aligned_size mm (ucast sz);
       let n = num_rep mm;
       let lst = mm_last_allocated_info mm;
       let tail = load_KVLogTail m (rl_local_tail_addr log_info);
       Some (ctx\<lparr>ac_addr_list := fill n (\<lambda>i. sb_addr_list lst ! i) (ac_addr_list ctx),
                 ac_rkey_list := fill n (\<lambda>i. sb_rkey_list lst ! i) (ac_rkey_list ctx),
                 ac_server_id_list := fill n (\<lambda>i. sb_server_id_list lst ! i) (ac_server_id_list ctx),
                 ac_num_subblocks := ucast (aligned_size div mm_subblock_sz mm),
                 ac_prev_addr_list := (ac_prev_addr_list ctx)[0 :=
                   HashIndexConvert40To64Bits (lt_prev_addr tail) OR ucast (lt_prev_addr tail ! 5)]\<rparr>) }"

definition log_info0 :: RecoverLogInfo where
  "log_info0 = \<lparr>rl_local_tail_addr = 0, rl_key_len = 0, rl_val_len = 0, rl_remote_addr = 0, rl_server_id = 0\<rparr>"

definition get_last_log_recover_info :: "ClientMM \<Rightarrow> RecoverLogInfo" where
  "get_last_log_recover_info mm =
     (let n = length (mm_recover_log_info_list mm)
      in if 1 < n then mm_recover_log_info_list mm ! (n - 2) else log_info0)"

definition get_subblock_idx :: "ClientMM \<Rightarrow> addr \<Rightarrow> ClientMMBlock \<Rightarrow> 32 word option" where
  "get_subblock_idx mm a block =
     (if mm_subblock_sz mm = 0 then None
      else Some (ucast ((a - mr_addr (mmb_mr_info_list block ! 0)) div mm_subblock_sz mm)))"

section \<open>Constructor\<close>

definition ClientMM_new ::
    "env \<Rightarrow> Nm \<Rightarrow> GlobalConfig \<Rightarrow> addr \<Rightarrow> 32 word \<Rightarrow> world \<Rightarrow> (ClientMM \<times> world) option" where
  "ClientMM_new v nm conf buf lkey w =
     do {
       let k = conf_server_id conf - conf_memory_num conf + 1;
       kv_off \<leftarrow> round_up (of_nat (META_AREA_LEN + GC_AREA_LEN + HASH_AREA_LEN)) (ucast (conf_block_size conf));
       if conf_block_size conf = 0 \<or> conf_subblock_size conf = 0 then None
       else do {
         let subblock_num = (ucast (conf_block_size conf div conf_subblock_size conf) :: 32 word);
         let bmap = (ucast (ucast (subblock_num div 8) div conf_subblock_size conf) :: 32 word);
         let bmap = (if ucast (bmap * 8) * conf_subblock_size conf < ucast subblock_num then bmap + 1 else bmap);
         let n = unat (conf_num_replication conf);
         let mm = \<lparr>mm_num_replication = conf_num_replication conf, mm_num_idx_rep = conf_num_idx_rep conf,
            mm_num_memory = conf_memory_num conf, mm_mm_blocks = [], mm_cur_mm_block_idx = 0,
            mm_subblock_num = subblock_num, mm_last_allocated = conf_server_id conf,
            mm_bmap_block_num = bmap, mm_pr_log_server_id = uninit_sid v 0, mm_pr_log_head = uninit_u64 v,
            mm_client_meta_addr = conf_server_base_addr conf + ucast (of_nat CLIENT_META_LEN * k)
              + of_nat ClientLogMetaInfo_size,
            mm_client_gc_addr = conf_server_base_addr conf + of_nat META_AREA_LEN + ucast (of_nat CLIENT_GC_LEN * k),
            mm_server_limit_addr = conf_server_base_addr conf + conf_server_data_len conf,
            mm_server_kv_area_off = kv_off, mm_server_kv_area_addr = conf_server_base_addr conf + kv_off,
            mm_server_num_blocks = (conf_server_data_len conf - kv_off) div conf_block_size conf,
            mm_recover_buf = 0, mm_recover_lkey = 0, mm_recover_log_info_list = [],
            mm_recover_addr_is_allocated = (\<lambda>_. False), mm_log_tail_st_ptr = 0, mm_tmp_buf = 0,
            mm_subblock_free_queue = [],
            mm_last_allocated_info = \<lparr>sb_addr_list = map (\<lambda>i. mr_addr (uninit_mr v i)) [0..<n],
               sb_rkey_list = map (\<lambda>i. mr_rkey (uninit_mr v i)) [0..<n],
               sb_server_id_list = map (uninit_sid v) [0..<n]\<rparr>,
            mm_mm_block_sz = conf_block_size conf, mm_subblock_sz = conf_subblock_size conf,
            mm_alloc_block_map = Map.empty, mm_total_block_map = Map.empty, mm_free_faa_map = Map.empty\<rparr>;
         mm \<leftarrow> get_block_map mm;
         if \<not> conf_is_recovery conf then do {
           (mm, w) \<leftarrow> (if conf_server_id conf - conf_memory_num conf = 0
                       then init_get_new_block_from_server v nm (mm, w)
                       else get_new_block_from_server v nm (mm, w));
           block \<leftarrow> nth_opt (mm_mm_blocks mm) 0;
           sid \<leftarrow> nth_opt (mmb_server_id_list block) 0;
           mr \<leftarrow> nth_opt (mmb_mr_info_list block) 0;
           Some (mm\<lparr>mm_cur_mm_block_idx := 0, mm_pr_log_server_id := sid, mm_pr_log_head := mr_addr mr\<rparr>, w) }
         else mm_recovery v nm buf lkey (mm, w) } }"

section \<open>Client and memory node agree on the placement\<close>

lemma map_replicas_place:
  "map_replicas limit bs n st js ptrs =
     (case place_replicas limit bs n st js ptrs of
        None \<Rightarrow> None
      | Some (addrs, ptrs') \<Rightarrow> Some (map2 (\<lambda>a i. a OR of_nat (replica_sid n st i)) addrs js, ptrs'))"
  by (induction js arbitrary: ptrs) (auto simp: Let_def split: option.split bind_splits)

lemma length_place_replicas:
  "place_replicas limit bs n st js ptrs = Some (addrs, ptrs') \<Longrightarrow> length addrs = length js"
  by (induction js arbitrary: ptrs addrs ptrs') (auto simp: Let_def split: if_splits bind_splits)

lemma map_push_dom: "k' \<in> dom (map_push k x m) \<longleftrightarrow> k' = k \<or> k' \<in> dom m"
  by (auto simp: map_push_def)

text \<open>\<open>backups n m k\<close>: the map holds at least \<open>n\<close> replicas for key \<open>k\<close>.\<close>

definition backups :: "nat \<Rightarrow> (addr \<rightharpoonup> addr list) \<Rightarrow> addr \<Rightarrow> bool" where
  "backups n m k \<longleftrightarrow> (\<exists>ys. m k = Some ys \<and> n \<le> length ys)"

lemma backups_push: "backups n m k \<Longrightarrow> backups n (map_push k' x m) k"
  by (auto simp: backups_def map_push_def)

lemma backups_push_Suc: "backups n m k \<or> n = 0 \<Longrightarrow> backups (Suc n) (map_push k x m) k"
  by (auto simp: backups_def map_push_def split: option.split)

lemma record_js_keeps:
  "record_js addrs i js (A, T) = Some (A', T') \<Longrightarrow> backups n A k \<Longrightarrow> backups n A' k"
proof (induction js arbitrary: A T)
  case (Cons j js)
  then obtain A1 T1 where 1: "record_pair addrs i j (A, T) = Some (A1, T1)"
    "record_js addrs i js (A1, T1) = Some (A', T')" by (auto split: bind_splits)
  have "backups n A1 k" using 1(1) Cons.prems(2)
    by (auto simp: record_pair_def Let_def backups_push split: if_splits)
  then show ?case using Cons.IH [OF 1(2)] by blast
qed simp

lemma record_js_first:
  "record_js addrs 0 js (A, T) = Some (A', T') \<Longrightarrow> backups n A (addrs ! 0) \<or> n = 0 \<Longrightarrow>
   backups (n + length (filter (\<lambda>j. j \<noteq> 0) js)) A' (addrs ! 0) \<or> n + length (filter (\<lambda>j. j \<noteq> 0) js) = 0"
proof (induction js arbitrary: A T n)
  case (Cons j js)
  then obtain A1 T1 where 1: "record_pair addrs 0 j (A, T) = Some (A1, T1)"
    "record_js addrs 0 js (A1, T1) = Some (A', T')" by (auto split: bind_splits)
  show ?case
  proof (cases "j = 0")
    case True
    then show ?thesis using 1 Cons by (auto simp: record_pair_def)
  next
    case False
    then have "A1 = map_push (addrs ! 0) (addrs ! j) A"
      using 1(1) by (auto simp: record_pair_def Let_def split: if_splits)
    then have "backups (Suc n) A1 (addrs ! 0)" using Cons.prems(2) backups_push_Suc by auto
    then show ?thesis using Cons.IH [OF 1(2), of "Suc n"] False by auto
  qed
qed auto

lemma record_is_keeps:
  "record_is nr addrs js (A, T) = Some (A', T') \<Longrightarrow> backups n A k \<Longrightarrow> backups n A' k"
proof (induction js arbitrary: A T)
  case (Cons i js)
  then obtain A1 T1 where 1: "record_js addrs i [0..<nr] (A, T) = Some (A1, T1)"
    "record_is nr addrs js (if nr = 1 then map_push (addrs ! 0) 0 A1 else A1, T1) = Some (A', T')"
    by (auto split: bind_splits)
  have "backups n A1 k" by (rule record_js_keeps [OF 1(1) Cons.prems(2)])
  then show ?case using Cons.IH [OF 1(2)] by (auto simp: backups_push)
qed simp

lemma record_is_primary:
  assumes "record_is nr addrs [0..<nr] (A, T) = Some (A', T')" "0 < nr"
  shows "backups (max 1 (nr - 1)) A' (addrs ! 0)"
proof -
  have upt: "[0..<nr] = 0 # [1..<nr]" using assms(2) by (simp add: upt_conv_Cons)
  from assms(1) obtain A1 T1 where 1: "record_js addrs 0 [0..<nr] (A, T) = Some (A1, T1)"
    "record_is nr addrs [1..<nr] (if nr = 1 then map_push (addrs ! 0) 0 A1 else A1, T1) = Some (A', T')"
    by (subst (asm) upt) (auto simp flip: upt split: bind_splits)
  have "length (filter (\<lambda>j. j \<noteq> 0) [0..<nr]) = nr - 1"
    unfolding upt by (auto simp: filter_id_conv)
  then have "backups (nr - 1) A1 (addrs ! 0) \<or> nr - 1 = 0"
    using record_js_first [OF 1(1), of 0] by simp
  then have "backups (max 1 (nr - 1)) (if nr = 1 then map_push (addrs ! 0) 0 A1 else A1) (addrs ! 0)"
    using backups_push_Suc [of 0 A1 "addrs ! 0" 0] assms(2) by (auto simp: max_def)
  then show ?thesis by (rule record_is_keeps [OF 1(2)])
qed

text \<open>The parameters a client and a memory node have to share.\<close>

definition same_layout :: "ClientMM \<Rightarrow> ServerMM \<Rightarrow> bool" where
  "same_layout mm s \<longleftrightarrow> mm_num_memory mm = smm_num_memory s \<and>
     mm_num_replication mm = smm_num_replication s \<and>
     mm_server_limit_addr mm = smm_client_kv_area_limit s \<and>
     mm_mm_block_sz mm = ucast (smm_block_size s) \<and> unat (mm_num_memory mm) \<le> 256"

lemma skip_full_bound:
  assumes "skip_full ptrs lim n st = Some st'" "st < n"
  shows "st' < n"
proof -
  have "st < n \<longrightarrow> st' < n" if "skip_full ptrs lim n st = Some st'" for ptrs lim n st st'
    by (rule skip_full.raw_induct [OF _ that]) (auto split: if_splits)
  with assms show ?thesis by blast
qed

lemma map_blocks_place_blocks:
  assumes "same_layout mm s" "0 < num_rep mm" "n0 = max 1 (num_rep mm - 1)"
  shows "map_blocks mm n c ptrs (A, T) = Some (A', T') \<Longrightarrow>
     place_blocks s n c ptrs acc = Some bs \<Longrightarrow>
     (\<forall>a \<in> set acc. backups n0 A (a OR of_nat (unat (smm_my_sid s)))) \<Longrightarrow>
     (\<forall>a \<in> set bs. backups n0 A' (a OR of_nat (unat (smm_my_sid s))))"
proof (induction n arbitrary: c ptrs A T acc)
  case (Suc n)
  let ?n = "unat (mm_num_memory mm)" and ?r = "num_rep mm"
  have l: "smm_num_memory s = mm_num_memory mm" "smm_num_replication s = mm_num_replication mm"
    "smm_client_kv_area_limit s = mm_server_limit_addr mm" "ucast (smm_block_size s) = mm_mm_block_sz mm"
    "?n \<le> 256"
    using assms(1) unfolding same_layout_def by auto
  from Suc.prems(1) obtain st addrs ptrs' A1 T1 where 1: "0 < ?n"
    "skip_full ptrs (mm_server_limit_addr mm) ?n (c mod ?n) = Some st"
    "map_replicas (mm_server_limit_addr mm) (mm_mm_block_sz mm) ?n st [0..<?r] ptrs = Some (addrs, ptrs')"
    "record_is ?r addrs [0..<?r] (A, T) = Some (A1, T1)"
    "map_blocks mm n (c + 1) ptrs' (A1, T1) = Some (A', T')"
    by (auto simp: Let_def split: if_splits bind_splits)
  from 1(3) obtain as where as: "place_replicas (mm_server_limit_addr mm) (mm_mm_block_sz mm) ?n st [0..<?r] ptrs
      = Some (as, ptrs')" "addrs = map2 (\<lambda>a i. a OR of_nat (replica_sid ?n st i)) as [0..<?r]"
    by (auto simp: map_replicas_place split: option.splits)
  have len: "length as = ?r" using length_place_replicas [OF as(1)] by simp
  then have "as \<noteq> []" using assms(2) by auto
  have "st < ?n" using skip_full_bound [OF 1(2)] 1(1) by simp
  then have "replica_sid ?n st 0 = st" using l(5) by (simp add: replica_sid_def)
  then have hd: "addrs ! 0 = hd as OR of_nat st"
    using as(2) len assms(2) \<open>as \<noteq> []\<close> by (simp add: hd_conv_nth)
  have key: "backups n0 A1 (addrs ! 0)" using record_is_primary [OF 1(4) assms(2)] assms(3) by simp
  have keep: "backups n0 A k \<Longrightarrow> backups n0 A1 k" for k by (rule record_is_keeps [OF 1(4)])
  have p: "place_blocks s n (c + 1) ptrs' (if st = unat (smm_my_sid s) then acc @ [hd as] else acc) = Some bs"
    using Suc.prems(2) 1(1,2) as(1) by (simp add: l Let_def)
  show ?case
    by (rule Suc.IH [OF 1(5) p]) (use Suc.prems(3) keep key hd in auto)
qed simp

lemma block_map_agrees:
  assumes "same_layout mm s" "mm_server_kv_area_addr mm = smm_base_addr s + smm_client_kv_area_off s"
    and "mm_server_num_blocks mm = ucast (smm_num_blocks s)"
    and "unat (smm_num_blocks s) * unat (smm_num_memory s) < 2 ^ 32"
    and "smm_allocable_blocks s = []"
    and "get_block_map mm = Some mm'" "get_allocable_blocks s = Some s'"
    and "a \<in> set (smm_allocable_blocks s')"
  shows "backups (max 1 (num_rep mm - 1)) (mm_alloc_block_map mm') (a OR of_nat (unat (smm_my_sid s)))"
proof -
  have l: "smm_num_memory s = mm_num_memory mm" "smm_num_replication s = mm_num_replication mm"
    using assms(1) by (simp_all add: same_layout_def)
  have nz: "mm_num_replication mm \<noteq> 0" using assms(6) by (auto simp: get_block_map_def split: if_splits)
  then have "0 < num_rep mm" by (simp add: unat_gt_0)
  let ?c = "unat ((smm_num_blocks s * smm_num_memory s) div smm_num_replication s)"
  let ?c' = "(ucast ((mm_server_num_blocks mm * ucast (mm_num_memory mm)) div ucast (mm_num_replication mm)) :: 32 word)"
  have "unat ?c' = ?c"
  proof -
    have u: "unat (ucast (x :: 32 word) :: 64 word) = unat x" for x by (rule unat_ucast64)
    have p: "unat (smm_num_blocks s) * unat (smm_num_memory s) < 2 ^ 64" using assms(4) by simp
    have "unat ((mm_server_num_blocks mm * ucast (mm_num_memory mm)) div ucast (mm_num_replication mm))
       = unat (smm_num_blocks s) * unat (smm_num_memory s) div unat (smm_num_replication s)"
      using p by (simp add: assms(3) unat_div_distrib unat_word_ariths u l)
    moreover have "unat (smm_num_blocks s) * unat (smm_num_memory s) div unat (smm_num_replication s) < 2 ^ 32"
      using assms(4) by (meson div_le_dividend le_less_trans)
    ultimately show ?thesis
      using assms(4) by (simp add: unsigned_ucast_eq take_bit_nat_eq_self unat_div_distrib unat_word_ariths)
  qed
  from assms(6) obtain A T where A: "map_blocks mm ?c 0 (replicate (unat (mm_num_memory mm)) (mm_server_kv_area_addr mm))
      (mm_alloc_block_map mm, mm_total_block_map mm) = Some (A, T)" "mm_alloc_block_map mm' = A"
    using nz \<open>unat ?c' = ?c\<close> by (auto simp: get_block_map_def Let_def split: bind_splits)
  from assms(7) have B: "place_blocks s ?c 0 (replicate (unat (mm_num_memory mm)) (mm_server_kv_area_addr mm)) []
      = Some (smm_allocable_blocks s')"
    using assms(2,5) by (auto simp: get_allocable_blocks_def Let_def l split: if_splits bind_splits)
  show ?thesis
    using map_blocks_place_blocks [OF assms(1) \<open>0 < num_rep mm\<close> refl A(1) B] assms(8) A(2) by simp
qed

declare longest_run.simps [simp del] interleave.simps [simp del]

section \<open>Queues\<close>

lemma mset_interleave: "mset (interleave qs) = sum_list (map mset qs)"
proof (induction qs rule: interleave.induct)
  case (1 qs)
  have split: "mset (map hd (filter (\<lambda>q. q \<noteq> []) qs)) + sum_list (map mset (map tl qs)) = sum_list (map mset qs)"
  proof (induction qs)
    case (Cons q qs)
    then show ?case by (cases q) auto
  qed simp
  show ?case
  proof (cases "\<forall>q \<in> set qs. q = []")
    case True
    then have "sum_list (map mset qs) = {#}" by (induction qs) auto
    then show ?thesis using True by (simp add: interleave.simps)
  next
    case False
    have "mset (interleave qs) = mset (map hd (filter (\<lambda>q. q \<noteq> []) qs)) + mset (interleave (map tl qs))"
      by (subst interleave.simps) (simp only: False if_False mset_append)
    then show ?thesis using 1 [OF False] split by simp
  qed
qed

lemma merge_queues_append:
  "merge_queues n (is @ js) qs out = do { (out, qs) \<leftarrow> merge_queues n is qs out; merge_queues n js qs out }"
  by (induction n "is" qs out rule: merge_queues.induct) (auto split: list.split bind_splits)

text \<open>One round takes the head of every queue.\<close>

lemma merge_queues_round:
  assumes "k \<le> length qs" "length qs = n" "\<forall>q \<in> set qs. q \<noteq> []" "c mod n = 0" "0 < n"
  shows "merge_queues n [c..<c + k] qs out = Some (out @ map hd (take k qs), map tl (take k qs) @ drop k qs)"
  using assms(1)
proof (induction k)
  case (Suc k)
  then have k: "k < n" using assms(2) by simp
  then have m: "(c + k) mod n = k" using assms(4) by (simp add: mod_add_left_eq [symmetric])
  have nth: "(map tl (take k qs) @ drop k qs) ! k = qs ! k" using k assms(2) by (simp add: nth_append)
  obtain x xs where x: "qs ! k = x # xs" using assms(2,3) k by (metis list.exhaust nth_mem)
  have "(map tl (take k qs) @ drop k qs)[k := xs] = map tl (take (Suc k) qs) @ drop (Suc k) qs"
  proof (rule nth_equalityI)
    fix j assume "j < length ((map tl (take k qs) @ drop k qs)[k := xs])"
    then have "j < n" using assms(2) k by simp
    then show "(map tl (take k qs) @ drop k qs)[k := xs] ! j = (map tl (take (Suc k) qs) @ drop (Suc k) qs) ! j"
      using k assms(2) x by (cases j k rule: linorder_cases) (auto simp: nth_append nth_list_update)
  qed (use k assms(2) in simp)
  then show ?case
    using Suc k assms(2) x by (simp add: merge_queues_append m nth take_Suc_conv_app_nth)
qed simp

lemma merge_queues_all:
  assumes "0 < n" "length qs = n" "\<forall>q \<in> set qs. length q = d" "c mod n = 0"
  shows "\<exists>out'. merge_queues n [c..<c + n * d] qs out = Some (out @ out', replicate n []) \<and>
     mset out' = sum_list (map mset qs)"
  using assms
proof (induction d arbitrary: qs c out)
  case 0
  then have "qs = replicate n []" by (metis length_0_conv replicate_eqI)
  moreover have "sum_list (replicate n ({#} :: 'a multiset)) = {#}" by (induction n) simp_all
  ultimately show ?case by simp
next
  case (Suc d)
  have ne: "\<forall>q \<in> set qs. q \<noteq> []" using Suc.prems(3) by auto
  have up: "[c..<c + n * Suc d] = [c..<c + n] @ [c + n..<c + n + n * d]"
    using upt_add_eq_append [of c "c + n" "n * d"] by (simp add: algebra_simps)
  obtain out' where out': "merge_queues n [c + n..<c + n + n * d] (map tl qs) (out @ map hd qs) =
      Some ((out @ map hd qs) @ out', replicate n [])" "mset out' = sum_list (map mset (map tl qs))"
    using Suc.IH [of "map tl qs" "c + n" "out @ map hd qs"] Suc.prems by auto
  have "mset (map hd qs) + sum_list (map mset (map tl qs)) = sum_list (map mset qs)"
    using ne by (induction qs) (auto simp: neq_Nil_conv)
  then have "mset (map hd qs @ out') = sum_list (map mset qs)" using out'(2) by simp
  moreover have "merge_queues n [c..<c + n * Suc d] qs out = Some (out @ (map hd qs @ out'), replicate n [])"
    unfolding up merge_queues_append using merge_queues_round [of n qs n c out] Suc.prems ne out'(1) by simp
  ultimately show ?case by blast
qed

section \<open>The longest run of free subblocks\<close>

text \<open>Subblocks \<open>i, \<dots>, i + j - 1\<close> exist and are free.\<close>

definition free_seg :: "bool list \<Rightarrow> nat \<Rightarrow> nat \<Rightarrow> nat \<Rightarrow> bool" where
  "free_seg bmap num i j \<longleftrightarrow> i + j \<le> num \<and> (\<forall>k < j. \<not> bmap ! (i + k))"

lemma free_run_seg:
  "free_seg bmap num i j \<Longrightarrow> free_seg bmap num i (free_run bmap num i j) \<and>
     (\<forall>l. free_seg bmap num i l \<longrightarrow> l \<le> free_run bmap num i j)"
proof (induction bmap num i j rule: free_run.induct)
  case (1 bmap num i j)
  show ?case
  proof (cases "i + j < num \<and> \<not> bmap ! (i + j)")
    case True
    then have "free_seg bmap num i (j + 1)" using 1(2) by (auto simp: free_seg_def less_Suc_eq)
    then show ?thesis using 1(1) True by (subst (1 2) free_run.simps) simp
  next
    case False
    have "l \<le> j" if "free_seg bmap num i l" for l
    proof (rule ccontr)
      assume "\<not> l \<le> j"
      then have "i + j < num \<and> \<not> bmap ! (i + j)" using that by (auto simp: free_seg_def)
      then show False using False by blast
    qed
    moreover have "free_run bmap num i j = j" using False by (subst free_run.simps) auto
    ultimately show ?thesis using 1(2) by simp
  qed
qed

text \<open>The best run found before subblock \<open>i\<close>: \<open>(-1, -1)\<close> as long as there was none.\<close>

definition best_before :: "bool list \<Rightarrow> nat \<Rightarrow> nat \<Rightarrow> int \<times> int \<Rightarrow> bool" where
  "best_before bmap num i best \<longleftrightarrow>
     (best = (-1, -1) \<and> (\<forall>a l. 1 \<le> a \<and> a < i \<and> free_seg bmap num a l \<longrightarrow> l = 0) \<or>
      (\<exists>a j. best = (int a, int j) \<and> 1 \<le> a \<and> 0 < j \<and> free_seg bmap num a j \<and>
         (\<forall>b l. 1 \<le> b \<and> b < i \<and> free_seg bmap num b l \<longrightarrow> l \<le> j)))"

lemma best_before_skip:
  assumes "best_before bmap num i best" "bmap ! i"
  shows "best_before bmap num (Suc i) best"
proof -
  have "l = 0" if "free_seg bmap num i l" for l
    using that assms(2) by (cases l) (auto simp: free_seg_def)
  then show ?thesis using assms(1) unfolding best_before_def less_Suc_eq by fastforce
qed

lemma best_before_run:
  assumes best: "best_before bmap num i best" and i: "1 \<le> i" and j: "0 < j"
    and seg: "free_seg bmap num i j" "\<And>l. free_seg bmap num i l \<Longrightarrow> l \<le> j"
  shows "best_before bmap num (i + j) (if snd best < int j then (int i, int j) else best)"
proof -
  have in_run: "l \<le> j" if b: "i \<le> b" "b < i + j" and l: "free_seg bmap num b l" for b l
  proof -
    have "free_seg bmap num i (b - i + l)" unfolding free_seg_def
    proof (intro conjI allI impI)
      show "i + (b - i + l) \<le> num" using b(1) l by (simp add: free_seg_def)
      fix k assume k: "k < b - i + l"
      show "\<not> bmap ! (i + k)"
      proof (cases "k < j")
        case True
        then show ?thesis using seg(1) by (simp add: free_seg_def)
      next
        case False
        then have "i + k = b + (i + k - b)" "i + k - b < l" using b k by linarith+
        then show ?thesis using l by (metis free_seg_def)
      qed
    qed
    then have "b - i + l \<le> j" by (rule seg(2))
    then show ?thesis by simp
  qed
  show ?thesis
  proof (cases "snd best < int j")
    case True
    have "l \<le> j" if "1 \<le> b" "b < i + j" "free_seg bmap num b l" for b l
    proof (cases "b < i")
      case True
      then show ?thesis using best that \<open>snd best < int j\<close> by (fastforce simp: best_before_def)
    next
      case False
      then show ?thesis using in_run [of b l] that by simp
    qed
    then show ?thesis using True i j seg(1) by (auto simp: best_before_def)
  next
    case False
    then obtain a m where am: "best = (int a, int m)" "1 \<le> a" "0 < m" "free_seg bmap num a m"
      "\<And>b l. 1 \<le> b \<Longrightarrow> b < i \<Longrightarrow> free_seg bmap num b l \<Longrightarrow> l \<le> m" "j \<le> m"
      using best by (auto simp: best_before_def)
    have "l \<le> m" if "1 \<le> b" "b < i + j" "free_seg bmap num b l" for b l
      using am(5,6) in_run [of b l] that by (cases "b < i") auto
    then show ?thesis using False am by (auto simp: best_before_def)
  qed
qed

lemma longest_run_best:
  "best_before bmap num i best \<Longrightarrow> 1 \<le> i \<Longrightarrow> \<exists>k \<ge> num. best_before bmap num k (longest_run bmap num i best)"
proof (induction bmap num i best rule: longest_run.induct)
  case (1 bmap num i best)
  consider (stop) "num \<le> i" | (skip) "\<not> num \<le> i" "bmap ! i" | (run) "\<not> num \<le> i" "\<not> bmap ! i" by blast
  then show ?case
  proof cases
    case stop
    then show ?thesis using 1(3) by (subst longest_run.simps) auto
  next
    case skip
    then show ?thesis using 1(1) [OF skip] best_before_skip [OF 1(3) skip(2)] by (subst longest_run.simps) simp
  next
    case run
    let ?j = "free_run bmap num i 0"
    have seg: "free_seg bmap num i 0" using run(1) by (simp add: free_seg_def)
    have j: "0 < ?j" using free_run_pos run by simp
    note fr = free_run_seg [OF seg]
    have "best_before bmap num (i + ?j) (if snd best < int ?j then (int i, int ?j) else best)"
      using fr by (intro best_before_run [OF 1(3,4) j]) auto
    then show ?thesis using 1(2) [OF run refl] 1(4) run by (subst longest_run.simps) (simp add: Let_def)
  qed
qed

section \<open>Claims\<close>

text \<open>
  C11. \<open>update_mm_block_next\<close> finds a longest run of free subblocks of a
  block, its leading bitmap block excepted, or reports that every subblock is taken.
\<close>

theorem longest_free_run:
  assumes "update_mm_block_next mm block = Some block'"
  defines "n \<equiv> unat (mm_subblock_num mm)"
  shows "(mmb_next_free_subblock_cnt block' = -1 \<and> (\<forall>a. 1 \<le> a \<and> a < n \<longrightarrow> mmb_bmap block ! a)) \<or>
     (\<exists>a j. mmb_next_free_subblock_idx block' = int a \<and> mmb_next_free_subblock_cnt block' = int j \<and>
        1 \<le> a \<and> 0 < j \<and> free_seg (mmb_bmap block) n a j \<and>
        (\<forall>b l. 1 \<le> b \<and> b < n \<and> free_seg (mmb_bmap block) n b l \<longrightarrow> l \<le> j))"
proof -
  let ?r = "longest_run (mmb_bmap block) n 1 (-1, -1)"
  have "best_before (mmb_bmap block) n 1 (-1, -1)" by (simp add: best_before_def)
  then obtain k where k: "n \<le> k" "best_before (mmb_bmap block) n k ?r" using longest_run_best by blast
  have b': "mmb_next_free_subblock_idx block' = fst ?r" "mmb_next_free_subblock_cnt block' = snd ?r"
    using assms(1) by (auto simp: update_mm_block_next_def n_def Let_def split: if_splits prod.splits)
  have single: "mmb_bmap block ! a" if "a < n" "\<And>l. free_seg (mmb_bmap block) n a l \<Longrightarrow> l = 0" for a
    using that(2) [of 1] that(1) by (auto simp: free_seg_def)
  show ?thesis using k(2) unfolding best_before_def
  proof (elim disjE exE conjE)
    assume "?r = (-1, -1)" "\<forall>a l. 1 \<le> a \<and> a < k \<and> free_seg (mmb_bmap block) n a l \<longrightarrow> l = 0"
    then have "mmb_bmap block ! a" if "1 \<le> a" "a < n" for a using single [of a] that k(1) less_le_trans by blast
    then show ?thesis using b' \<open>?r = (-1, -1)\<close> by simp
  next
    fix a j assume "?r = (int a, int j)" "1 \<le> a" "0 < j" "free_seg (mmb_bmap block) n a j"
      "\<forall>b l. 1 \<le> b \<and> b < k \<and> free_seg (mmb_bmap block) n b l \<longrightarrow> l \<le> j"
    moreover from this have "\<forall>b l. 1 \<le> b \<and> b < n \<and> free_seg (mmb_bmap block) n b l \<longrightarrow> l \<le> j"
      using k(1) less_le_trans by blast
    ultimately have "mmb_next_free_subblock_idx block' = int a \<and> mmb_next_free_subblock_cnt block' = int j \<and>
        1 \<le> a \<and> 0 < j \<and> free_seg (mmb_bmap block) n a j \<and>
        (\<forall>b l. 1 \<le> b \<and> b < n \<and> free_seg (mmb_bmap block) n b l \<longrightarrow> l \<le> j)" using b' by simp
    then show ?thesis by blast
  qed
qed

text \<open>A subblock is given by as many replicas as the configuration asks for.\<close>

definition sb_ok :: "ClientMM \<Rightarrow> SubblockInfo \<Rightarrow> bool" where
  "sb_ok mm b \<longleftrightarrow> length (sb_addr_list b) = num_rep mm \<and> length (sb_rkey_list b) = num_rep mm \<and>
     length (sb_server_id_list b) = num_rep mm"

lemma map_nth_sb:
  "length xs = n \<Longrightarrow> map (\<lambda>i. xs ! i) [0..<n] = xs"
  by (metis map_nth)


text \<open>A client of the three small nodes; its subblocks have 1 KB.\<close>

definition mm_demo :: ClientMM where
  "mm_demo = \<lparr>mm_num_replication = 2, mm_num_idx_rep = 1, mm_num_memory = 3, mm_mm_blocks = [],
     mm_cur_mm_block_idx = 0, mm_subblock_num = 4, mm_last_allocated = 0, mm_bmap_block_num = 1,
     mm_pr_log_server_id = 0, mm_pr_log_head = 0, mm_client_meta_addr = 0x10018, mm_client_gc_addr = 0,
     mm_server_limit_addr = 0x15000, mm_server_kv_area_off = 0x1000, mm_server_kv_area_addr = 0x11000,
     mm_server_num_blocks = 4, mm_recover_buf = 0, mm_recover_lkey = 0, mm_recover_log_info_list = [],
     mm_recover_addr_is_allocated = (\<lambda>_. False), mm_log_tail_st_ptr = 0, mm_tmp_buf = 0,
     mm_subblock_free_queue =
       [\<lparr>sb_addr_list = [0x11800, 0x11800], sb_rkey_list = [1, 2], sb_server_id_list = [0, 1]\<rparr>,
        \<lparr>sb_addr_list = [0x11C00, 0x11C00], sb_rkey_list = [1, 2], sb_server_id_list = [0, 1]\<rparr>],
     mm_last_allocated_info = \<lparr>sb_addr_list = [0x11400, 0x11400], sb_rkey_list = [1, 2], sb_server_id_list = [0, 1]\<rparr>,
     mm_mm_block_sz = 0x1000, mm_subblock_sz = 0x400, mm_alloc_block_map = Map.empty,
     mm_total_block_map = Map.empty, mm_free_faa_map = Map.empty\<rparr>"

definition alloc_ctx_demo :: ClientMMAllocCtx where
  "alloc_ctx_demo = \<lparr>ac_server_id_list = replicate 10 0, ac_addr_list = replicate 10 0, ac_prev_addr_list = replicate 10 0,
     ac_next_addr_list = replicate 10 0, ac_rkey_list = replicate 10 0, ac_prev_rkey_list = replicate 10 0,
     ac_next_rkey_list = replicate 10 0, ac_num_subblocks = 0, ac_need_change_prev = False\<rparr>"

definition nm_demo :: Nm where
  "nm_demo = \<lparr>nm_server_id = 4, nm_num_server = 3, nm_mr_info_list =
     [\<lparr>mr_addr = 0x10000, mr_rkey = 1\<rparr>, \<lparr>mr_addr = 0x10000, mr_rkey = 2\<rparr>, \<lparr>mr_addr = 0x10000, mr_rkey = 3\<rparr>]\<rparr>"

theorem longest_free_run_witness:
  "\<exists>block'. update_mm_block_next mm_demo (mmblock0\<lparr>mmb_bmap := [True, True, False, False]\<rparr>) = Some block' \<and>
     \<not> mmb_next_free_subblock_cnt block' = -1"
proof -
  let ?b = "mmblock0\<lparr>mmb_bmap := [True, True, False, False]\<rparr>"
  obtain block' where b: "update_mm_block_next mm_demo ?b = Some block'"
    by (cases "longest_run [True, True, False, False] 4 1 (-1, -1)")
      (simp add: update_mm_block_next_def mm_demo_def mmblock0_def)
  have "\<not> (\<forall>a. 1 \<le> a \<and> a < unat (mm_subblock_num mm_demo) \<longrightarrow> mmb_bmap ?b ! a)"
    by (rule notI, drule spec [of _ 2]) (simp add: mm_demo_def)
  with longest_free_run [OF b] have "mmb_next_free_subblock_cnt block' \<noteq> -1" by auto
  with b show ?thesis by blast
qed



lemma skip_full_here: "ptrs ! st \<noteq> limit \<Longrightarrow> skip_full ptrs limit n st = Some st"
  by (subst skip_full.simps) simp

lemma pair_demo:
  defines "mm \<equiv> mm_demo\<lparr>mm_num_memory := 2, mm_server_num_blocks := 1, mm_server_limit_addr := 0x12000\<rparr>"
    and "s \<equiv> node_demo\<lparr>smm_my_sid := 0, smm_num_memory := 2, smm_num_blocks := 1, smm_client_kv_area_limit := 0x12000\<rparr>"
  shows "\<exists>mm'. get_block_map mm = Some mm'" "get_allocable_blocks s = Some (s\<lparr>smm_allocable_blocks := [0x11000]\<rparr>)"
    "same_layout mm s" "mm_server_kv_area_addr mm = smm_base_addr s + smm_client_kv_area_off s"
    "mm_server_num_blocks mm = ucast (smm_num_blocks s)"
    "unat (smm_num_blocks s) * unat (smm_num_memory s) < 2 ^ 32" "smm_allocable_blocks s = []"
proof -
  have u: "[0..<2] = [0, Suc 0]" by (simp add: upt_rec)
  show "\<exists>mm'. get_block_map mm = Some mm'"
    by (simp add: mm_def mm_demo_def get_block_map_def skip_full_here record_pair_def replica_sid_def u Let_def)
  show "get_allocable_blocks s = Some (s\<lparr>smm_allocable_blocks := [0x11000]\<rparr>)"
    by (simp add: s_def node_demo_def get_allocable_blocks_def skip_full_here replica_sid_def u Let_def)
qed (simp_all add: mm_def s_def mm_demo_def node_demo_def same_layout_def)


lemma init_reg_blocks_queues:
  "init_reg_blocks v nm bs st = Some (qs, mm', w') \<Longrightarrow>
   length qs = length bs \<and> (\<forall>q \<in> set qs. length q = unat (mm_subblock_num (fst st)) - unat (mm_bmap_block_num (fst st))) \<and>
   mm_num_memory mm' = mm_num_memory (fst st) \<and> mm_subblock_num mm' = mm_subblock_num (fst st) \<and>
   mm_bmap_block_num mm' = mm_bmap_block_num (fst st)"
proof (induction v nm bs st arbitrary: qs rule: init_reg_blocks.induct)
  case (2 v nm mrs sids bs mm w)
  then show ?case by (fastforce simp: Let_def split: bind_splits)
qed simp


text \<open>With reliable verbs and a key for every replica the metadata reaches the nodes.\<close>

lemma write_inl_returns:
  assumes "rc_verbs v" "w_cq w = []"
  shows "\<exists>w'. nm_rdma_write_inl_to_sid v data a k sid w = Some w' \<and> w_cq w' = []"
proof -
  have "wr_signaled (inline_write 100 data a k)" by (simp add: inline_write_def)
  from post_one [OF assms this, of sid] show ?thesis
    using assms(2) by (auto simp: nm_rdma_write_inl_to_sid_def)
qed

lemma write_meta_returns:
  assumes "rc_verbs v" "w_cq w = []" "\<forall>i \<in> set js. get_server_rkey nm (of_nat i) \<noteq> None"
  shows "\<exists>w'. write_meta (nm_rdma_write_inl_to_sid v) nm data a js w = Some w' \<and> w_cq w' = []"
  using assms(2,3)
proof (induction js arbitrary: w)
  case (Cons j js)
  obtain k where k: "get_server_rkey nm (of_nat j) = Some k" using Cons.prems(2) by auto
  obtain w1 where "nm_rdma_write_inl_to_sid v data a k (of_nat j) w = Some w1" "w_cq w1 = []"
    using write_inl_returns [OF assms(1) Cons.prems(1)] by blast
  then show ?case using Cons k by simp
qed simp

lemma init_reg_blocks_returns:
  assumes "rc_verbs v" "w_cq w = []" "\<forall>i < num_rep mm. get_server_rkey nm (of_nat i) \<noteq> None"
  shows "\<exists>qs mm' w'. init_reg_blocks v nm bs (mm, w) = Some (qs, mm', w')"
  using assms(2,3)
proof (induction bs arbitrary: mm w)
  case (Cons b bs)
  obtain mrs sids where b: "b = (mrs, sids)" by (cases b)
  obtain w1 where w1: "write_meta (nm_rdma_write_inl_to_sid v) nm (ClientMetaAddrInfo_bytes (meta_record v mm TYPE_KVBLOCK mrs sids))
      (mm_client_meta_addr mm) [0..<num_rep mm] w = Some w1" "w_cq w1 = []"
    using write_meta_returns [OF assms(1) Cons.prems(1), of "[0..<num_rep mm]" nm
        "ClientMetaAddrInfo_bytes (meta_record v mm TYPE_KVBLOCK mrs sids)" "mm_client_meta_addr mm"] Cons.prems(2) by auto
  let ?mm = "mm\<lparr>mm_client_meta_addr := mm_client_meta_addr mm + of_nat ClientMetaAddrInfo_size\<rparr>"
  obtain qs mm' w' where "init_reg_blocks v nm bs
      (?mm\<lparr>mm_mm_blocks := mm_mm_blocks ?mm @ [mk_mmblock ?mm mrs sids]\<rparr>, w1) = Some (qs, mm', w')"
    using Cons.IH [of w1 "?mm\<lparr>mm_mm_blocks := mm_mm_blocks ?mm @ [mk_mmblock ?mm mrs sids]\<rparr>"] w1(2) Cons.prems(2) by auto
  then show ?case using w1(1) by (simp add: b Let_def)
qed simp


end
