(* ===== verification/Client.thy ===== *)
theory Client
  imports ClientMM
begin

text \<open>
  The key-value client of \<open>src/src/client.h\<close> and \<open>client.cc\<close>, first half: its state, the
  request context, the local address cache, where a key lives, the work requests each
  phase posts, and the scans over the buckets and pairs that were read. The second
  half (theory \<open>ClientOps\<close>) puts the phases together.
\<close>

section \<open>State\<close>

datatype KVOpsCrashPoint = KV_CRASH_UNCOMMITTED_BK_CONSENSUS_0 | KV_CRASH_UNCOMMITTED_BK_CONSENSUS_1
  | KV_CRASH_COMMITTED_PR_CAS | KV_CRASH_COMMITTED_ALL_FINISH

datatype KVRequestType = KV_REQ_SEARCH | KV_REQ_INSERT | KV_REQ_UPDATE | KV_REQ_DELETE
  | KV_REQ_RECOVER_COMMITTED | KV_REQ_RECOVER_UNCOMMITTED

datatype KVConsensusState = KV_CONSENSUS_WIN_ALL | KV_CONSENSUS_WIN_MAJOR | KV_CONSENSUS_WIN_LITTLE
  | KV_CONSENSUS_FAIL | KV_CONSENSUS_FINISH | KV_CONSENSUS_NON

datatype KVOpsRetCode = KV_OPS_SUCCESS | KV_OPS_FAIL_RETURN | KV_OPS_FAIL_REDO

primrec KVOpsRetCode_code :: "KVOpsRetCode \<Rightarrow> 32 word" where
  "KVOpsRetCode_code KV_OPS_SUCCESS = 0"
| "KVOpsRetCode_code KV_OPS_FAIL_RETURN = 1"
| "KVOpsRetCode_code KV_OPS_FAIL_REDO = 2"

text \<open>
  Pointers into registered buffers are addresses. \<open>ctx_ret_val\<close> is the union of the
  returned address and the return code. \<open>ctx_should_stop\<close> is the flag behind the
  pointer, read as the world stands, or \<^const>\<open>None\<close> for a pointer that was never set.
  \<open>ctx_cache_entry\<close> points into the heap of cache entries of the client.
\<close>

record KVReqCtx =
  ctx_coro_id :: "64 word"
  ctx_req_type :: KVRequestType
  ctx_kv_info :: KVInfo
  ctx_local_bucket_addr :: addr
  ctx_local_cache_addr :: addr
  ctx_local_kv_addr :: addr
  ctx_local_cas_target_value_addr :: addr
  ctx_local_cas_return_value_addr :: addr
  ctx_op_laddr :: addr
  ctx_lkey :: "32 word"
  ctx_use_cache :: bool
  ctx_bucket_arr :: "addr list"
  ctx_f_com_bucket :: addr
  ctx_s_com_bucket :: addr
  ctx_slot_arr :: "addr list"
  ctx_hash_info :: KVHashInfo
  ctx_tbl_addr_info :: KVTableAddrInfo
  ctx_kv_read_addr_list :: "KVRWAddr list"
  ctx_kv_idx_list :: "(nat \<times> nat) list"
  ctx_mm_alloc_ctx :: ClientMMAllocCtx
  ctx_consensus_state :: KVConsensusState
  ctx_kv_modify_pr_cas_list :: "KVCASAddr list"
  ctx_kv_modify_bk_0_cas_list :: "KVCASAddr list"
  ctx_kv_modify_bk_1_cas_list :: "KVCASAddr list"
  ctx_bucket_idx :: int
  ctx_slot_idx :: int
  ctx_kv_invalid_addr :: KVRWAddr
  ctx_log_commit_addr_list :: "KVRWAddr list"
  ctx_write_unused_addr_list :: "KVRWAddr list"
  ctx_recover_match_idx_list :: "(nat \<times> nat) list"
  ctx_healthy_idx_server_id_list :: "byte list"
  ctx_is_finished :: bool
  ctx_is_cache_hit :: bool
  ctx_is_local_cache_hit :: bool
  ctx_committed_need_cas_pr :: bool
  ctx_has_modified_bk_idx :: bool
  ctx_failed_pr_index :: bool
  ctx_failed_pr_addr :: bool
  ctx_ret_val :: "64 word"
  ctx_should_stop :: "(world \<Rightarrow> bool) option"
  ctx_key_str :: "byte list"
  ctx_cache_entry :: nat

definition set_ret_code :: "KVOpsRetCode \<Rightarrow> KVReqCtx \<Rightarrow> KVReqCtx" where
  "set_ret_code r ctx = ctx\<lparr>ctx_ret_val := push_bit 32 (drop_bit 32 (ctx_ret_val ctx)) OR ucast (KVOpsRetCode_code r)\<rparr>"

definition ret_code :: "KVReqCtx \<Rightarrow> 32 word" where
  "ret_code ctx = ucast (ctx_ret_val ctx)"

text \<open>
  \<open>addr_cache_\<close> maps a key to an entry of the heap \<open>cl_cache_heap\<close>; \<open>cl_cache_brk\<close> is
  the next unused entry. The float threshold of the cache is the quotient of two
  naturals.
\<close>

record Client =
  cl_mm :: ClientMM
  cl_nm :: Nm
  cl_my_server_id :: "32 word"
  cl_num_replication :: "32 word"
  cl_num_memory :: "32 word"
  cl_num_idx_rep :: "32 word"
  cl_pr_log_server_id :: byte
  cl_pr_log_head :: addr
  cl_pr_log_tail :: addr
  cl_remote_global_meta_addr :: addr
  cl_remote_meta_addr :: addr
  cl_remote_gc_addr :: addr
  cl_remote_root_addr :: addr
  cl_server_st_addr :: addr
  cl_server_data_len :: "64 word"
  cl_miss_rate_threash_num :: nat
  cl_miss_rate_threash_den :: nat
  cl_race_root :: addr
  cl_race_root_lkey :: "32 word"
  cl_local_buf :: addr
  cl_local_buf_lkey :: "32 word"
  cl_input_buf :: addr
  cl_input_buf_lkey :: "32 word"
  cl_coro_local_addr_list :: "addr list"
  cl_addr_cache :: "byte list \<rightharpoonup> nat"
  cl_cache_heap :: "nat \<rightharpoonup> LocalCacheEntry"
  cl_cache_brk :: nat
  cl_server_mr_info_map :: "32 word \<rightharpoonup> MrInfo"
  cl_server_crash_map :: "byte \<Rightarrow> bool"
  cl_meta_addr_info :: "ClientMetaAddrInfo list"

abbreviation num_idx :: "Client \<Rightarrow> nat" where
  "num_idx c \<equiv> unat (cl_num_idx_rep c)"

abbreviation num_repl :: "Client \<Rightarrow> nat" where
  "num_repl c \<equiv> unat (cl_num_replication c)"

text \<open>\<open>server_mr_info_map_[sid]->rkey\<close>: an unknown node is a null pointer.\<close>

definition server_rkey :: "Client \<Rightarrow> byte \<Rightarrow> 32 word option" where
  "server_rkey c sid = map_option mr_rkey (cl_server_mr_info_map c (ucast sid))"

section \<open>The address cache\<close>

text \<open>A list shorter than \<open>num_idx_rep_\<close> is read out of bounds.\<close>

definition update_cache :: "byte list \<Rightarrow> RaceHashSlot \<Rightarrow> addr list \<Rightarrow> Client \<Rightarrow> Client option" where
  "update_cache key_str slot_info r_slot_addr_list c =
     (if length r_slot_addr_list < num_idx c then None
      else case cl_addr_cache c key_str of
        Some p \<Rightarrow> do {
          entry \<leftarrow> cl_cache_heap c p;
          let entry = (if ce_l_slot_ptr entry \<noteq> slot_info
                then entry\<lparr>ce_miss_cnt := ce_miss_cnt entry + 1, ce_l_slot_ptr := slot_info,
                           ce_r_slot_addr := take (num_idx c) r_slot_addr_list\<rparr>
                else entry);
          let entry = entry\<lparr>ce_acc_cnt := ce_acc_cnt entry + 1\<rparr>;
          Some (c\<lparr>cl_cache_heap := (cl_cache_heap c)(p \<mapsto> entry)\<rparr>) }
      | None \<Rightarrow>
          (let tmp_value = \<lparr>ce_r_slot_addr = take (num_idx c) r_slot_addr_list,
                 ce_l_slot_ptr = slot_info, ce_miss_cnt = 0, ce_acc_cnt = 1\<rparr>
           in Some (c\<lparr>cl_cache_heap := (cl_cache_heap c)(cl_cache_brk c \<mapsto> tmp_value),
                      cl_addr_cache := (cl_addr_cache c)(key_str \<mapsto> cl_cache_brk c),
                      cl_cache_brk := cl_cache_brk c + 1\<rparr>)))"

text \<open>The result is the entry's address, or \<^const>\<open>None\<close> for \<open>NULL\<close>, inside the usual option.\<close>

definition check_cache :: "byte list \<Rightarrow> Client \<Rightarrow> (nat option \<times> Client) option" where
  "check_cache key_str c =
     (case cl_addr_cache c key_str of
        None \<Rightarrow> Some (None, c)
      | Some p \<Rightarrow> do {
          entry \<leftarrow> cl_cache_heap c p;
          if HashIndexConvert40To64Bits (slot_pointer (ce_l_slot_ptr entry)) = 0
          then Some (None, c\<lparr>cl_cache_heap := (cl_cache_heap c)(p := None),
                             cl_addr_cache := (cl_addr_cache c)(key_str := None)\<rparr>)
          else if cl_miss_rate_threash_num c * unat (ce_acc_cnt entry)
                    < unat (ce_miss_cnt entry) * cl_miss_rate_threash_den c
          then Some (None, c)
          else Some (Some p, c) })"

definition remove_cache :: "byte list \<Rightarrow> Client \<Rightarrow> Client" where
  "remove_cache key_str c = c\<lparr>cl_addr_cache := (cl_addr_cache c)(key_str := None)\<rparr>"

text \<open>\<open>ctx->cache_entry->acc_cnt ++\<close>.\<close>

definition bump_acc_cnt :: "nat \<Rightarrow> Client \<Rightarrow> Client option" where
  "bump_acc_cnt p c = do {
     entry \<leftarrow> cl_cache_heap c p;
     Some (c\<lparr>cl_cache_heap := (cl_cache_heap c)(p \<mapsto> entry\<lparr>ce_acc_cnt := ce_acc_cnt entry + 1\<rparr>)\<rparr>) }"

section \<open>Where a key lives\<close>

definition RACE_HASH_MASK :: "64 word \<Rightarrow> 64 word" where
  "RACE_HASH_MASK n = scast (push_bit (unat n mod 32) (1 :: 32 word) - 1 :: 32 word)"

text \<open>A prefix past the directory indexes outside the root.\<close>

definition get_kv_hash_info :: "Client \<Rightarrow> mem \<Rightarrow> KVInfo \<Rightarrow> KVHashInfo option" where
  "get_kv_hash_info c m kv =
     (let key_addr = kvi_l_addr kv + of_nat KVLogHeader_size;
          hash_value = VariableLengthHash m key_addr (ucast (kvi_key_len kv)) 0;
          prefix = drop_bit SUBTABLE_USED_HASH_BIT_NUM hash_value
                     AND RACE_HASH_MASK (root_global_depth m (cl_race_root c))
      in if unat prefix < RACE_HASH_MAX_SUBTABLE_NUM
         then Some \<lparr>hi_hash_value = hash_value, hi_prefix = prefix,
                hi_fp = HashIndexComputeFp hash_value,
                hi_local_depth = ste_local_depth (root_subtable_entry m (cl_race_root c) (unat prefix) 0)\<rparr>
         else None)"

text \<open>Two of three buckets are addressable: a pair of main buckets shares the one between them.\<close>

definition bucket_pair_idx :: "64 word \<Rightarrow> 64 word" where
  "bucket_pair_idx i = (if i mod 2 = 0 then i div 2 * 3 else i div 2 * 3 + 1)"

definition get_kv_addr_info ::
    "Client \<Rightarrow> mem \<Rightarrow> KVHashInfo \<Rightarrow> KVTableAddrInfo \<Rightarrow> KVTableAddrInfo option" where
  "get_kv_addr_info c m hi ta =
     (let root = cl_race_root c; range = root_subtable_hash_range m root in do {
        f_index_value \<leftarrow> SubtableFirstIndex (hi_hash_value hi) range;
        s_index_value \<leftarrow> SubtableSecondIndex (hi_hash_value hi) f_index_value range;
        let f_idx = bucket_pair_idx f_index_value;
        let s_idx = bucket_pair_idx s_index_value;
        let entry = (\<lambda>i. root_subtable_entry m root (unat (hi_prefix hi)) i);
        let off = (\<lambda>i. HashIndexConvert40To64Bits (ste_pointer (entry i)));
        rkeys \<leftarrow> map_opt (\<lambda>i. server_rkey c (ste_server_id (entry i))) [0..<num_idx c];
        Some (ta\<lparr>
          ta_f_main_idx := ucast (f_index_value mod 2), ta_s_main_idx := ucast (s_index_value mod 2),
          ta_f_idx := ucast f_idx, ta_s_idx := ucast s_idx,
          ta_server_id_list := fill (num_idx c) (\<lambda>i. ste_server_id (entry i)) (ta_server_id_list ta),
          ta_f_bucket_addr := fill (num_idx c) (\<lambda>i. off i + f_idx * of_nat RaceHashBucket_size) (ta_f_bucket_addr ta),
          ta_s_bucket_addr := fill (num_idx c) (\<lambda>i. off i + s_idx * of_nat RaceHashBucket_size) (ta_s_bucket_addr ta),
          ta_f_bucket_addr_rkey := fill (num_idx c) (\<lambda>i. rkeys ! i) (ta_f_bucket_addr_rkey ta),
          ta_s_bucket_addr_rkey := fill (num_idx c) (\<lambda>i. rkeys ! i) (ta_s_bucket_addr_rkey ta)\<rparr>) })"

definition prepare_request :: "Client \<Rightarrow> mem \<Rightarrow> KVReqCtx \<Rightarrow> KVReqCtx option" where
  "prepare_request c m ctx = do {
     hi \<leftarrow> get_kv_hash_info c m (ctx_kv_info ctx);
     ta \<leftarrow> get_kv_addr_info c m hi (ctx_tbl_addr_info ctx);
     Some (ctx\<lparr>ctx_hash_info := hi, ctx_tbl_addr_info := ta\<rparr>) }"

section \<open>Work requests\<close>

definition READ_BUCKET_ST_WRID :: "32 word" where "READ_BUCKET_ST_WRID = 100"
definition WRITE_KV_ST_WRID :: "32 word" where "WRITE_KV_ST_WRID = 200"
definition READ_KV_ST_WRID :: "32 word" where "READ_KV_ST_WRID = 300"
definition CAS_ST_WRID :: "32 word" where "CAS_ST_WRID = 400"
definition INVALID_ST_WRID :: "32 word" where "INVALID_ST_WRID = 500"
definition READ_CACHE_ST_WRID :: "32 word" where "READ_CACHE_ST_WRID = 600"
definition WRITE_HB_ST_WRID :: "32 word" where "WRITE_HB_ST_WRID = 700"
definition LOG_COMMIT_ST_WRID :: "32 word" where "LOG_COMMIT_ST_WRID = 800"
definition READ_ALL_BUCKET_ST_WRID :: "32 word" where "READ_ALL_BUCKET_ST_WRID = 150"
definition READ_PR_ST_WRID :: "32 word" where "READ_PR_ST_WRID = 250"

lemmas wrid_consts = READ_BUCKET_ST_WRID_def WRITE_KV_ST_WRID_def READ_KV_ST_WRID_def
  CAS_ST_WRID_def INVALID_ST_WRID_def READ_CACHE_ST_WRID_def WRITE_HB_ST_WRID_def
  LOG_COMMIT_ST_WRID_def READ_ALL_BUCKET_ST_WRID_def READ_PR_ST_WRID_def

text \<open>The three kinds of request the client builds; none is signaled before merging.\<close>

definition read_wr :: "64 word \<Rightarrow> addr \<Rightarrow> 32 word \<Rightarrow> 32 word \<Rightarrow> addr \<Rightarrow> 32 word \<Rightarrow> ibv_send_wr" where
  "read_wr i laddr len lkey raddr rkey =
     wr0\<lparr>wr_id := i, wr_sge := \<lparr>sge_addr = laddr, sge_length = len, sge_lkey = lkey\<rparr>,
         wr_opcode := IBV_WR_RDMA_READ, wr_remote_addr := raddr, wr_rkey := rkey\<rparr>"

definition write_wr :: "64 word \<Rightarrow> addr \<Rightarrow> 32 word \<Rightarrow> 32 word \<Rightarrow> addr \<Rightarrow> 32 word \<Rightarrow> ibv_send_wr" where
  "write_wr i laddr len lkey raddr rkey =
     wr0\<lparr>wr_id := i, wr_sge := \<lparr>sge_addr = laddr, sge_length = len, sge_lkey = lkey\<rparr>,
         wr_opcode := IBV_WR_RDMA_WRITE, wr_remote_addr := raddr, wr_rkey := rkey\<rparr>"

definition inl_wr :: "64 word \<Rightarrow> byte list \<Rightarrow> addr \<Rightarrow> 32 word \<Rightarrow> ibv_send_wr" where
  "inl_wr i data raddr rkey =
     wr0\<lparr>wr_id := i, wr_sge := \<lparr>sge_addr = 0, sge_length = of_nat (length data), sge_lkey = 0\<rparr>,
         wr_inl := Some data, wr_opcode := IBV_WR_RDMA_WRITE, wr_inline := True,
         wr_remote_addr := raddr, wr_rkey := rkey\<rparr>"

text \<open>Two buckets around each of the two candidate positions, read to \<open>local_addr\<close>.\<close>

definition read_bucket_pair ::
    "KVReqCtx \<Rightarrow> addr \<Rightarrow> nat \<Rightarrow> 64 word \<Rightarrow> 64 word \<Rightarrow> IbvSrList" where
  "read_bucket_pair ctx local_addr i id0 id1 =
     (let ta = ctx_tbl_addr_info ctx; len = of_nat (2 * RaceHashBucket_size)
      in \<lparr>sr_list =
            [read_wr id0 local_addr len (ctx_lkey ctx)
               (ta_f_bucket_addr ta ! i) (ta_f_bucket_addr_rkey ta ! i),
             read_wr id1 (local_addr + of_nat (2 * RaceHashBucket_size)) len (ctx_lkey ctx)
               (ta_s_bucket_addr ta ! i) (ta_s_bucket_addr_rkey ta ! i)],
          sr_server_id = ucast (ta_server_id_list ta ! i)\<rparr>)"

definition gen_read_bucket_sr_lists :: "KVReqCtx \<Rightarrow> IbvSrList list" where
  "gen_read_bucket_sr_lists ctx =
     (let sid = ta_server_id_list (ctx_tbl_addr_info ctx) ! 0
      in [read_bucket_pair ctx (ctx_local_bucket_addr ctx) 0
            (ib_gen_wr_id (ucast (ctx_coro_id ctx)) sid READ_BUCKET_ST_WRID 1)
            (ib_gen_wr_id (ucast (ctx_coro_id ctx)) sid READ_BUCKET_ST_WRID 2)])"

definition gen_read_bucket_sr_lists_on_crash :: "KVReqCtx \<Rightarrow> IbvSrList list" where
  "gen_read_bucket_sr_lists_on_crash ctx =
     map (\<lambda>(i, orig_idx).
            let sid = ta_server_id_list (ctx_tbl_addr_info ctx) ! unat orig_idx
            in read_bucket_pair ctx (ctx_local_bucket_addr ctx + of_nat (4 * RaceHashBucket_size * i))
                 (unat orig_idx)
                 (ib_gen_wr_id (ucast (ctx_coro_id ctx)) sid READ_ALL_BUCKET_ST_WRID (of_nat (2 * (i + 1))))
                 (ib_gen_wr_id (ucast (ctx_coro_id ctx)) sid READ_ALL_BUCKET_ST_WRID (of_nat (2 * (i + 1) - 1))))
       (enumerate 0 (ctx_healthy_idx_server_id_list ctx))"

text \<open>
  The array has \<open>num_replication_\<close> elements, the loop fills \<open>num_idx_rep_\<close> of them and
  the count returned is \<open>num_replication_\<close>: when the two differ the callers read
  uninitialised elements or the loop writes past the array.
\<close>

definition gen_read_all_bucket_sr_lists :: "Client \<Rightarrow> KVReqCtx \<Rightarrow> IbvSrList list option" where
  "gen_read_all_bucket_sr_lists c ctx =
     (if cl_num_idx_rep c \<noteq> cl_num_replication c then None
      else Some (map (\<lambda>i.
            let i_wrid = ib_gen_wr_id (ucast (ctx_coro_id ctx))
                  (ta_server_id_list (ctx_tbl_addr_info ctx) ! i) READ_ALL_BUCKET_ST_WRID (of_nat (i + 1))
            in read_bucket_pair ctx (ctx_local_bucket_addr ctx + of_nat (4 * RaceHashBucket_size * i)) i i_wrid i_wrid)
          [0..<num_idx c]))"

definition write_replicas ::
    "Client \<Rightarrow> 32 word \<Rightarrow> addr \<Rightarrow> 32 word \<Rightarrow> 32 word \<Rightarrow> ClientMMAllocCtx \<Rightarrow> IbvSrList list" where
  "write_replicas c coro_id laddr len lkey r_mm_info =
     map (\<lambda>i. \<lparr>sr_list = [write_wr
             (ib_gen_wr_id coro_id (ac_server_id_list r_mm_info ! i) WRITE_KV_ST_WRID (of_nat (i + 1)))
             laddr len lkey (ac_addr_list r_mm_info ! i) (ac_rkey_list r_mm_info ! i)],
           sr_server_id = ucast (ac_server_id_list r_mm_info ! i)\<rparr>) [0..<num_repl c]"

definition gen_write_kv_sr_lists ::
    "Client \<Rightarrow> 32 word \<Rightarrow> KVInfo \<Rightarrow> ClientMMAllocCtx \<Rightarrow> IbvSrList list" where
  "gen_write_kv_sr_lists c coro_id kv r_mm_info =
     write_replicas c coro_id (kvi_l_addr kv)
       (ucast (ucast (ac_num_subblocks r_mm_info) * mm_subblock_sz (cl_mm c))) (kvi_lkey kv) r_mm_info"

definition gen_write_del_log_sr_lists ::
    "Client \<Rightarrow> 32 word \<Rightarrow> KVInfo \<Rightarrow> ClientMMAllocCtx \<Rightarrow> IbvSrList list" where
  "gen_write_del_log_sr_lists c coro_id kv r_mm_info =
     write_replicas c coro_id (kvi_l_addr kv)
       (of_nat KVLogHeader_size + of_nat KVLogTail_size + kvi_key_len kv) (kvi_lkey kv) r_mm_info"

text \<open>One chain per node, in node order.\<close>

definition gen_read_kv_sr_lists :: "32 word \<Rightarrow> KVRWAddr list \<Rightarrow> IbvSrList list" where
  "gen_read_kv_sr_lists coro_id r_addr_list =
     map (\<lambda>sid. \<lparr>sr_list = map (\<lambda>(i, a). read_wr (ib_gen_wr_id coro_id sid READ_KV_ST_WRID (of_nat (i + 1)))
                     (rw_l_kv_addr a) (rw_length a) (rw_lkey a) (rw_r_kv_addr a) (rw_rkey a))
                   (enumerate 0 (filter (\<lambda>a. rw_server_id a = sid) r_addr_list)),
                 sr_server_id = ucast sid\<rparr>)
       (sort (remdups (map rw_server_id r_addr_list)))"

definition cas_wr :: "32 word \<Rightarrow> nat \<Rightarrow> KVCASAddr \<Rightarrow> ibv_send_wr" where
  "cas_wr coro_id i a =
     wr0\<lparr>wr_id := ib_gen_wr_id coro_id (cas_server_id a) CAS_ST_WRID (of_nat (i + 1)),
         wr_sge := \<lparr>sge_addr = cas_l_kv_addr a, sge_length = 8, sge_lkey = cas_lkey a\<rparr>,
         wr_opcode := IBV_WR_ATOMIC_CMP_AND_SWP,
         wr_remote_addr := cas_r_kv_addr a, wr_rkey := cas_rkey a,
         wr_compare_add := cas_orig_value a, wr_swap := cas_swap_value a\<rparr>"

definition gen_cas_sr_lists :: "32 word \<Rightarrow> KVCASAddr list \<Rightarrow> IbvSrList list" where
  "gen_cas_sr_lists coro_id cas_addr_list =
     map (\<lambda>(i, a). \<lparr>sr_list = [cas_wr coro_id i a], sr_server_id = ucast (cas_server_id a)\<rparr>)
       (enumerate 0 cas_addr_list)"

definition gen_read_cache_kv_sr_lists :: "Client \<Rightarrow> 32 word \<Rightarrow> RaceHashSlot \<Rightarrow> addr \<Rightarrow> IbvSrList list option" where
  "gen_read_cache_kv_sr_lists c coro_id slot local_addr = do {
     rkey \<leftarrow> server_rkey c (slot_server_id slot);
     Some [\<lparr>sr_list = [read_wr (ib_gen_wr_id coro_id (slot_server_id slot) READ_CACHE_ST_WRID 1)
              local_addr (ucast (ucast (slot_kv_len slot) * mm_subblock_sz (cl_mm c))) (cl_local_buf_lkey c)
              (HashIndexConvert40To64Bits (slot_pointer slot)) rkey],
            sr_server_id = ucast (slot_server_id slot)\<rparr>] }"

definition gen_invalid_sr_lists :: "32 word \<Rightarrow> KVRWAddr \<Rightarrow> byte \<Rightarrow> IbvSrList list" where
  "gen_invalid_sr_lists coro_id r_addr local_data =
     [\<lparr>sr_list = [inl_wr (ib_gen_wr_id coro_id (rw_server_id r_addr) INVALID_ST_WRID 1) [local_data]
                    (rw_r_kv_addr r_addr) (rw_rkey r_addr)],
       sr_server_id = ucast (rw_server_id r_addr)\<rparr>]"

text \<open>\<open>sge->addr\<close> is assigned twice and \<open>sge->length\<close> never: a write of no bytes.\<close>

definition gen_write_hb_sr_lists :: "32 word \<Rightarrow> KVRWAddr list \<Rightarrow> IbvSrList list" where
  "gen_write_hb_sr_lists coro_id rw_addr_list =
     map (\<lambda>(i, a). \<lparr>sr_list = [wr0\<lparr>wr_id := ib_gen_wr_id coro_id (rw_server_id a) WRITE_HB_ST_WRID (of_nat (i + 1)),
              wr_sge := \<lparr>sge_addr = ucast (rw_length a), sge_length = 0, sge_lkey = 0\<rparr>,
              wr_opcode := IBV_WR_RDMA_WRITE, wr_inline := True,
              wr_remote_addr := rw_r_kv_addr a, wr_rkey := rw_rkey a\<rparr>],
            sr_server_id = ucast (rw_server_id a)\<rparr>)
       (enumerate 0 rw_addr_list)"

definition gen_log_commit_sr_lists :: "Client \<Rightarrow> 32 word \<Rightarrow> byte list \<Rightarrow> KVRWAddr list \<Rightarrow> IbvSrList list option" where
  "gen_log_commit_sr_lists c coro_id data rw_addr_list =
     (if length rw_addr_list < num_repl c then None
      else Some (map (\<lambda>i. let a = rw_addr_list ! i in
              \<lparr>sr_list = [inl_wr (ib_gen_wr_id coro_id (rw_server_id a) LOG_COMMIT_ST_WRID (of_nat (i + 1))) data
                            (rw_r_kv_addr a) (rw_rkey a)],
               sr_server_id = ucast (rw_server_id a)\<rparr>) [0..<num_repl c]))"

definition gen_read_primary_sr_list :: "KVReqCtx \<Rightarrow> IbvSrList list option" where
  "gen_read_primary_sr_list ctx = do {
     a \<leftarrow> nth_opt (ctx_kv_modify_pr_cas_list ctx) 0;
     Some [\<lparr>sr_list = [read_wr (ib_gen_wr_id (ucast (ctx_coro_id ctx)) (cas_server_id a) READ_PR_ST_WRID 1)
              (cas_l_kv_addr a) 8 (cas_lkey a) (cas_r_kv_addr a) (cas_rkey a)],
            sr_server_id = ucast (cas_server_id a)\<rparr>] }"

section \<open>Slots and compare-and-swap operands\<close>

definition fill_slot :: "ClientMMAllocCtx \<Rightarrow> KVHashInfo \<Rightarrow> RaceHashSlot" where
  "fill_slot ac hi =
     \<lparr>slot_fp = hi_fp hi, slot_kv_len = ucast (ac_num_subblocks ac),
      slot_server_id = ac_server_id_list ac ! 0,
      slot_pointer = HashIndexConvert64To40Bits (ac_addr_list ac ! 0)\<rparr>"

definition cas_operand ::
    "KVReqCtx \<Rightarrow> addr list \<Rightarrow> 64 word \<Rightarrow> 64 word \<Rightarrow> nat \<Rightarrow> 32 word \<Rightarrow> KVCASAddr" where
  "cas_operand ctx remote_slot_addr old new i rkey =
     \<lparr>cas_server_id = ta_server_id_list (ctx_tbl_addr_info ctx) ! i,
      cas_r_kv_addr = remote_slot_addr ! i,
      cas_l_kv_addr = ctx_local_cas_return_value_addr ctx + of_nat (i * 8),
      cas_rkey = rkey, cas_lkey = ctx_lkey ctx,
      cas_orig_value = old, cas_swap_value = new\<rparr>"

text \<open>
  The slots are given by their 64-bit values \<open>old\<close> and \<open>new\<close>. Element 0 goes to the
  primary list, element \<open>i\<close> to position \<open>i - 1\<close> of the backup list; the lists have the
  sizes \<open>init_kv_req_ctx\<close> gave them.
\<close>

definition fill_cas_addr ::
    "Client \<Rightarrow> addr list \<Rightarrow> 64 word \<Rightarrow> 64 word \<Rightarrow> KVReqCtx \<Rightarrow> KVReqCtx option" where
  "fill_cas_addr c remote_slot_addr old new ctx =
     (if num_idx c = 0 then Some ctx
      else if length remote_slot_addr < num_idx c \<or> length (ctx_kv_modify_pr_cas_list ctx) = 0
        \<or> length (ctx_kv_modify_bk_0_cas_list ctx) < num_idx c - 1 then None
      else do {
        rkeys \<leftarrow> map_opt (\<lambda>i. server_rkey c (ta_server_id_list (ctx_tbl_addr_info ctx) ! i)) [0..<num_idx c];
        let op = (\<lambda>i. cas_operand ctx remote_slot_addr old new i (rkeys ! i));
        Some (ctx\<lparr>ctx_kv_modify_pr_cas_list := (ctx_kv_modify_pr_cas_list ctx)[0 := op 0],
                  ctx_kv_modify_bk_0_cas_list := fill (num_idx c - 1) (\<lambda>i. op (i + 1)) (ctx_kv_modify_bk_0_cas_list ctx)\<rparr>) })"

definition fill_invalid_addr :: "Client \<Rightarrow> RaceHashSlot \<Rightarrow> KVReqCtx \<Rightarrow> KVReqCtx option" where
  "fill_invalid_addr c slot ctx = do {
     rkey \<leftarrow> server_rkey c (slot_server_id slot);
     Some (ctx\<lparr>ctx_kv_invalid_addr := (ctx_kv_invalid_addr ctx)
       \<lparr>rw_r_kv_addr := HashIndexConvert40To64Bits (slot_pointer slot),
         rw_server_id := slot_server_id slot, rw_rkey := rkey\<rparr>\<rparr>) }"

text \<open>\<open>tail\<close> is the address of the log tail of the pair in the input buffer.\<close>

definition update_log_tail :: "addr \<Rightarrow> ClientMMAllocCtx \<Rightarrow> mem \<Rightarrow> mem" where
  "update_log_tail tail ac m =
     store_bytes (tail + 6) (HashIndexConvert64To40Bits (ac_prev_addr_list ac ! 0) @ [ucast (ac_prev_addr_list ac ! 0 AND 0xFF)])
       (store_bytes tail (HashIndexConvert64To40Bits (ac_next_addr_list ac ! 0) @ [ucast (ac_next_addr_list ac ! 0 AND 0xFF)]) m)"

definition log_addr :: "ClientMMAllocCtx \<Rightarrow> 32 word \<Rightarrow> nat \<Rightarrow> KVRWAddr \<Rightarrow> KVRWAddr" where
  "log_addr ac off i a = a\<lparr>rw_r_kv_addr := ac_addr_list ac ! i + ucast off,
     rw_server_id := ac_server_id_list ac ! i, rw_rkey := ac_rkey_list ac ! i\<rparr>"

definition prepare_log_commit_addrs :: "Client \<Rightarrow> mem \<Rightarrow> KVReqCtx \<Rightarrow> KVReqCtx option" where
  "prepare_log_commit_addrs c m ctx =
     (let header = load_KVLogHeader m (kvi_l_addr (ctx_kv_info ctx));
          tail_offset = of_nat KVLogHeader_size + ucast (lh_key_length header) + lh_value_length header;
          commit_offset = tail_offset + 16;
          unused_offset = tail_offset + 25;
          ac = ctx_mm_alloc_ctx ctx
      in if length (ctx_log_commit_addr_list ctx) < num_repl c \<or> length (ctx_write_unused_addr_list ctx) < num_repl c
         then None
         else Some (ctx\<lparr>
           ctx_log_commit_addr_list := fill (num_repl c)
             (\<lambda>i. log_addr ac commit_offset i (ctx_log_commit_addr_list ctx ! i)) (ctx_log_commit_addr_list ctx),
           ctx_write_unused_addr_list := fill (num_repl c)
             (\<lambda>i. log_addr ac unused_offset i (ctx_write_unused_addr_list ctx ! i)) (ctx_write_unused_addr_list ctx)\<rparr>))"

section \<open>Scanning what was read\<close>

definition get_local_bucket_info :: "KVReqCtx \<Rightarrow> KVReqCtx" where
  "get_local_bucket_info ctx =
     (let f = ctx_local_bucket_addr ctx; s = f + of_nat (2 * RaceHashBucket_size);
          buckets = [f, f + of_nat RaceHashBucket_size, s, s + of_nat RaceHashBucket_size]
      in ctx\<lparr>ctx_f_com_bucket := f, ctx_s_com_bucket := s, ctx_bucket_arr := buckets,
             ctx_slot_arr := map (\<lambda>b. bucket_slot b 0) buckets\<rparr>)"

text \<open>\<open>&ctx->slot_arr[i][j]\<close>.\<close>

definition slot_addr :: "KVReqCtx \<Rightarrow> nat \<Rightarrow> nat \<Rightarrow> addr" where
  "slot_addr ctx i j = ctx_slot_arr ctx ! i + of_nat (RaceHashSlot_size * j)"

text \<open>
  The slots of one request whose fingerprint matches, in scan order, with the place
  in the local buffer each pair is read to.
\<close>

fun match_slots ::
    "Client \<Rightarrow> mem \<Rightarrow> KVReqCtx \<Rightarrow> (nat \<times> nat) list \<Rightarrow> addr \<Rightarrow> (KVRWAddr \<times> nat \<times> nat) list option" where
  "match_slots c m ctx [] buf = Some []"
| "match_slots c m ctx ((i, j) # ijs) buf =
     (let s = load_slot m (slot_addr ctx i j) in
      if slot_fp s = hi_fp (ctx_hash_info ctx) \<and> slot_kv_len s \<noteq> 0 then do {
        rkey \<leftarrow> server_rkey c (slot_server_id s);
        let a = \<lparr>rw_server_id = slot_server_id s, rw_r_kv_addr = HashIndexConvert40To64Bits (slot_pointer s),
              rw_l_kv_addr = buf, rw_rkey = rkey, rw_lkey = cl_local_buf_lkey c,
              rw_length = ucast (ucast (slot_kv_len s) * mm_subblock_sz (cl_mm c))\<rparr>;
        rest \<leftarrow> match_slots c m ctx ijs (buf + ucast (rw_length a));
        Some ((a, i, j) # rest) }
      else match_slots c m ctx ijs buf)"

definition all_slots :: "(nat \<times> nat) list" where
  "all_slots = List.product [0..<4] [0..<RACE_HASH_ASSOC_NUM]"

definition find_kv_in_buckets :: "Client \<Rightarrow> mem \<Rightarrow> KVReqCtx \<Rightarrow> KVReqCtx option" where
  "find_kv_in_buckets c m ctx = do {
     let ctx = get_local_bucket_info ctx;
     ms \<leftarrow> match_slots c m ctx all_slots (ctx_local_kv_addr ctx);
     Some (ctx\<lparr>ctx_kv_read_addr_list := map fst ms, ctx_kv_idx_list := map snd ms\<rparr>) }"

text \<open>One round of the loop; the second round's choice replaces the first one's.\<close>

definition empty_slot_round :: "mem \<Rightarrow> KVReqCtx \<Rightarrow> 32 word \<Rightarrow> 32 word \<Rightarrow> int \<times> int \<Rightarrow> int \<times> int" where
  "empty_slot_round m ctx f_main_idx s_main_idx best =
     (let (f_free_num, f_free_slot_idx) = GetFreeSlotNum m (ctx_f_com_bucket ctx + of_nat RaceHashBucket_size * ucast f_main_idx);
          (s_free_num, s_free_slot_idx) = GetFreeSlotNum m (ctx_s_com_bucket ctx + of_nat RaceHashBucket_size * ucast s_main_idx)
      in if 0 < f_free_num \<or> 0 < s_free_num then
           (if s_free_num \<le> f_free_num then (uint f_main_idx, int f_free_slot_idx)
            else (uint (2 + s_main_idx), int s_free_slot_idx))
         else best)"

definition find_empty_slot :: "mem \<Rightarrow> KVReqCtx \<Rightarrow> KVReqCtx" where
  "find_empty_slot m ctx =
     (let ctx = get_local_bucket_info ctx;
          f = ta_f_main_idx (ctx_tbl_addr_info ctx); s = ta_s_main_idx (ctx_tbl_addr_info ctx);
          best = empty_slot_round m ctx f s (-1, -1);
          best = empty_slot_round m ctx ((f + 1) mod 2) ((s + 1) mod 2) best
      in ctx\<lparr>ctx_bucket_idx := fst best, ctx_slot_idx := snd best\<rparr>)"

definition kv_matches :: "mem \<Rightarrow> KVReqCtx \<Rightarrow> addr \<Rightarrow> bool" where
  "kv_matches m ctx l_kv_addr =
     CheckKey m (l_kv_addr + of_nat KVLogHeader_size) (ucast (lh_key_length (load_KVLogHeader m l_kv_addr)))
       (kvi_l_addr (ctx_kv_info ctx) + of_nat KVLogHeader_size) (kvi_key_len (ctx_kv_info ctx))"

text \<open>The first pair read whose key is the request's; -1 is \<^const>\<open>None\<close>.\<close>

fun first_idx :: "('a \<Rightarrow> bool) \<Rightarrow> nat \<Rightarrow> 'a list \<Rightarrow> nat option" where
  "first_idx P i [] = None"
| "first_idx P i (x # xs) = (if P x then Some i else first_idx P (i + 1) xs)"

definition find_match_kv_idx :: "mem \<Rightarrow> KVReqCtx \<Rightarrow> nat option" where
  "find_match_kv_idx m ctx = first_idx (\<lambda>a. kv_matches m ctx (rw_l_kv_addr a)) 0 (ctx_kv_read_addr_list ctx)"

text \<open>
  The remote addresses, on every index replica, of the slot \<open>(bucket_idx, slot_idx)\<close> of
  the local copy, with the local address itself.
\<close>

definition remote_slots :: "nat \<Rightarrow> KVReqCtx \<Rightarrow> nat \<Rightarrow> nat \<Rightarrow> addr \<times> addr list" where
  "remote_slots n ctx bucket_idx slot_idx =
     (if bucket_idx < 2 then
        (let com = ctx_f_com_bucket ctx;
             old = bucket_slot (com + of_nat (RaceHashBucket_size * bucket_idx)) slot_idx
         in (old, map (\<lambda>i. ta_f_bucket_addr (ctx_tbl_addr_info ctx) ! i + (old - com)) [0..<n]))
      else
        (let com = ctx_s_com_bucket ctx;
             old = bucket_slot (com + of_nat (RaceHashBucket_size * (bucket_idx - 2))) slot_idx
         in (old, map (\<lambda>i. ta_s_bucket_addr (ctx_tbl_addr_info ctx) ! i + (old - com)) [0..<n])))"

end
