(* ===== verification/Consensus.thy ===== *)
theory Consensus
  imports Client
begin

text \<open>
  How concurrent writers of one slot agree (\<open>check_cas_consensus_0_sync\<close> of
  \<open>src/src/client.cc\<close>): every writer has tried to swap its value into all backup
  slots and looks at the values the swaps returned. The first part is the decision
  as the code computes it; the second part is the protocol as a step relation over
  all writers of a slot, with the decision at its heart.
\<close>

section \<open>The decision\<close>

text \<open>
  A returned value that is the expected one, or already the writer's own, is a vote
  for the writer.
\<close>

definition vote :: "64 word \<Rightarrow> 64 word \<Rightarrow> 64 word \<Rightarrow> 64 word" where
  "vote expected_value target_value swap_back =
     (if swap_back = expected_value \<or> swap_back = target_value then target_value else swap_back)"

text \<open>The keys of \<open>win_addr_cnt\<close> in order; \<^const>\<open>count_list\<close> is its content.\<close>

definition win_keys :: "64 word list \<Rightarrow> 64 word list" where
  "win_keys vs = sort (remdups vs)"

definition maj_val :: "64 word list \<Rightarrow> 64 word" where
  "maj_val vs = fst (fold (\<lambda>k (maj_val, maj_vote).
       if maj_vote < int (count_list vs k) then (k, int (count_list vs k)) else (maj_val, maj_vote))
     (win_keys vs) (-1, -1))"

text \<open>\<open>n\<close> is \<open>num_idx_rep_ - 1\<close>. \<^const>\<open>KV_CONSENSUS_NON\<close>: the primary has to be read.\<close>

definition tally_decision :: "nat \<Rightarrow> 64 word \<Rightarrow> 64 word list \<Rightarrow> KVConsensusState" where
  "tally_decision n target_value vs =
     (let m = maj_val vs in
      if count_list vs m = n then
        (if m = target_value then KV_CONSENSUS_WIN_ALL else KV_CONSENSUS_FAIL)
      else if n < 2 * count_list vs m then
        (if m = target_value then KV_CONSENSUS_WIN_MAJOR else KV_CONSENSUS_FAIL)
      else if count_list vs target_value = 0 then KV_CONSENSUS_FAIL
      else KV_CONSENSUS_NON)"

definition primary_decision :: "64 word \<Rightarrow> 64 word \<Rightarrow> 64 word \<Rightarrow> 64 word list \<Rightarrow> KVConsensusState" where
  "primary_decision orig_value check_val target_value vs =
     (if check_val \<noteq> orig_value then KV_CONSENSUS_FINISH
      else if hd (win_keys vs) = target_value then KV_CONSENSUS_WIN_LITTLE
      else KV_CONSENSUS_FAIL)"

text \<open>The swaps still to do: every backup that holds another writer's value.\<close>

definition bk_1_list :: "64 word \<Rightarrow> 64 word \<Rightarrow> (KVCASAddr \<times> 64 word) list \<Rightarrow> KVCASAddr list" where
  "bk_1_list expected_value target_value cas =
     map (\<lambda>(a, swap_back). a\<lparr>cas_orig_value := swap_back\<rparr>)
       (filter (\<lambda>(a, swap_back). swap_back \<noteq> expected_value \<and> swap_back \<noteq> target_value) cas)"

section \<open>What the decision means\<close>

lemma count_two_values: "a \<noteq> b \<Longrightarrow> count_list vs a + count_list vs b \<le> length vs"
  by (induction vs) auto

text \<open>The loop over the map finds a value with the most votes.\<close>

lemma argmax_fold:
  fixes f :: "'a \<Rightarrow> nat"
  assumes "mc = int (f mv) \<or> mc = -1"
    and "fold (\<lambda>k (mv, mc). if mc < int (f k) then (k, int (f k)) else (mv, mc)) ks (mv, mc) = (mv', mc')"
  shows "(\<forall>k \<in> set ks. int (f k) \<le> mc') \<and> mc \<le> mc' \<and>
     (mc' = int (f mv') \<and> (mv' \<in> set ks \<or> (mv', mc') = (mv, mc)) \<or> (mv', mc') = (mv, mc))"
  using assms
proof (induction ks arbitrary: mv mc)
  case (Cons k ks)
  show ?case
  proof (cases "mc < int (f k)")
    case True
    then show ?thesis using Cons.IH [of "int (f k)" k] Cons.prems by auto
  next
    case False
    then show ?thesis using Cons.IH [of mc mv] Cons.prems by auto
  qed
qed simp

lemma maj_val:
  assumes "vs \<noteq> []"
  shows "maj_val vs \<in> set vs" "count_list vs k \<le> count_list vs (maj_val vs)"
proof -
  let ?f = "\<lambda>k (mv, mc). if mc < int (count_list vs k) then (k, int (count_list vs k)) else (mv, mc)"
  obtain mv mc where f: "fold ?f (win_keys vs) (-1, -1) = (mv, mc)" by fastforce
  have m: "maj_val vs = mv" using f by (simp add: maj_val_def)
  have set: "set (win_keys vs) = set vs" by (simp add: win_keys_def)
  note a = argmax_fold [OF _ f, simplified, unfolded set]
  obtain x where x: "x \<in> set vs" using assms by (meson list.set_sel(1))
  then have "int (count_list vs x) \<le> mc" using a by blast
  then have "mc \<noteq> -1" by linarith
  then have *: "mc = int (count_list vs mv)" "mv \<in> set vs" using a by auto
  then show "maj_val vs \<in> set vs" using m by simp
  show "count_list vs k \<le> count_list vs (maj_val vs)"
  proof (cases "k \<in> set vs")
    case True
    then have "int (count_list vs k) \<le> mc" using a by blast
    then show ?thesis using * m by simp
  next
    case False
    then show ?thesis by (simp add: count_notin)
  qed
qed

lemma hd_win_keys:
  assumes "vs \<noteq> []"
  shows "hd (win_keys vs) \<in> set vs" "k \<in> set vs \<Longrightarrow> hd (win_keys vs) \<le> k"
proof -
  have s: "set (win_keys vs) = set vs" "sorted (win_keys vs)" by (simp_all add: win_keys_def)
  then have ne: "win_keys vs \<noteq> []" using assms by (metis set_empty)
  then show "hd (win_keys vs) \<in> set vs" using s by (metis hd_in_set)
  show "hd (win_keys vs) \<le> k" if "k \<in> set vs"
  proof -
    have "k \<in> set (win_keys vs)" using that s by simp
    then show ?thesis using s(2) ne by (cases "win_keys vs") auto
  qed
qed

text \<open>A strict majority decides at once; without one the primary is read by those who have votes.\<close>

lemma tally_win_iff:
  assumes "length vs = n" "0 < n"
  shows "tally_decision n t vs \<in> {KV_CONSENSUS_WIN_ALL, KV_CONSENSUS_WIN_MAJOR} \<longleftrightarrow> n < 2 * count_list vs t"
proof -
  have ne: "vs \<noteq> []" using assms by auto
  let ?m = "maj_val vs"
  have "?m = t" if "n < 2 * count_list vs t"
    using maj_val(2) [OF ne, of t] count_two_values [of t ?m vs] that assms by fastforce
  then show ?thesis
    using assms maj_val(2) [OF ne, of t] by (auto simp: tally_decision_def Let_def)
qed

lemma tally_non_iff:
  assumes "length vs = n" "0 < n"
  shows "tally_decision n t vs = KV_CONSENSUS_NON \<longleftrightarrow>
     (\<forall>k. 2 * count_list vs k \<le> n) \<and> 0 < count_list vs t"
proof -
  have ne: "vs \<noteq> []" using assms by auto
  have "(\<forall>k. 2 * count_list vs k \<le> n) \<longleftrightarrow> 2 * count_list vs (maj_val vs) \<le> n"
    using maj_val(2) [OF ne] by (metis mult_le_mono2 order_trans)
  then show ?thesis using assms(2) by (auto simp: tally_decision_def Let_def)
qed

lemma tally_range:
  "tally_decision n t vs \<in> {KV_CONSENSUS_WIN_ALL, KV_CONSENSUS_WIN_MAJOR, KV_CONSENSUS_FAIL, KV_CONSENSUS_NON}"
  by (simp add: tally_decision_def Let_def)

section \<open>All writers of a slot\<close>

text \<open>
  The atomic actions of one writer, as its verbs reach the memory nodes: a swap on a
  backup, the decision on what the swaps returned, the read of the primary, the
  swaps that spread the winner's value, and the swap on the primary. \<open>w_back i\<close> is
  what the swap on backup \<open>i\<close> returned. \<open>Finished\<close> is a writer that found the primary
  changed: update and delete still issue their swap on the primary.
\<close>

datatype wphase = Voting | Checking | Spreading "nat set" | Committing | Won | Overtaken | Lost | Finished

record writer =
  w_phase :: wphase
  w_back :: "nat \<Rightarrow> 64 word option"

record 'w slots =
  s_primary :: "64 word"
  s_backups :: "64 word list"
  s_writers :: "'w \<Rightarrow> writer"

definition writer_votes :: "nat \<Rightarrow> 64 word \<Rightarrow> 64 word \<Rightarrow> writer \<Rightarrow> 64 word list" where
  "writer_votes n orig target w = map (\<lambda>i. vote orig target (the (w_back w i))) [0..<n]"

definition writer_todo :: "nat \<Rightarrow> 64 word \<Rightarrow> 64 word \<Rightarrow> writer \<Rightarrow> nat set" where
  "writer_todo n orig target w = {i. i < n \<and> the (w_back w i) \<noteq> orig \<and> the (w_back w i) \<noteq> target}"

text \<open>The state a decision leads to; \<open>KV_CONSENSUS_NON\<close> asks for the primary.\<close>

fun decided :: "nat set \<Rightarrow> KVConsensusState \<Rightarrow> wphase" where
  "decided todo KV_CONSENSUS_WIN_ALL = Spreading todo"
| "decided todo KV_CONSENSUS_WIN_MAJOR = Spreading todo"
| "decided todo KV_CONSENSUS_WIN_LITTLE = Spreading todo"
| "decided todo KV_CONSENSUS_FAIL = Lost"
| "decided todo KV_CONSENSUS_FINISH = Finished"
| "decided todo KV_CONSENSUS_NON = Checking"

definition set_phase :: "'w \<Rightarrow> wphase \<Rightarrow> 'w slots \<Rightarrow> 'w slots" where
  "set_phase w p s = s\<lparr>s_writers := (s_writers s)(w := (s_writers s w)\<lparr>w_phase := p\<rparr>)\<rparr>"

definition cas_backup :: "nat \<Rightarrow> 64 word \<Rightarrow> 64 word \<Rightarrow> 'w slots \<Rightarrow> 'w slots" where
  "cas_backup i cmp new s =
     (if s_backups s ! i = cmp then s\<lparr>s_backups := (s_backups s)[i := new]\<rparr> else s)"

definition cas_primary :: "64 word \<Rightarrow> 64 word \<Rightarrow> 'w slots \<Rightarrow> 'w slots" where
  "cas_primary cmp new s = (if s_primary s = cmp then s\<lparr>s_primary := new\<rparr> else s)"

inductive slot_step :: "nat \<Rightarrow> 64 word \<Rightarrow> ('w \<Rightarrow> 64 word) \<Rightarrow> 'w slots \<Rightarrow> 'w slots \<Rightarrow> bool"
  for n :: nat and orig :: "64 word" and target :: "'w \<Rightarrow> 64 word" where
  swap_backup:
    "w_phase (s_writers s w) = Voting \<Longrightarrow> i < n \<Longrightarrow> w_back (s_writers s w) i = None \<Longrightarrow>
     slot_step n orig target s (cas_backup i orig (target w)
       (s\<lparr>s_writers := (s_writers s)(w := (s_writers s w)\<lparr>w_back := (w_back (s_writers s w))(i \<mapsto> s_backups s ! i)\<rparr>)\<rparr>))"
| decide:
    "w_phase (s_writers s w) = Voting \<Longrightarrow> (\<forall>i < n. w_back (s_writers s w) i \<noteq> None) \<Longrightarrow>
     slot_step n orig target s (set_phase w
       (decided (writer_todo n orig (target w) (s_writers s w))
         (tally_decision n (target w) (writer_votes n orig (target w) (s_writers s w)))) s)"
| check:
    "w_phase (s_writers s w) = Checking \<Longrightarrow>
     slot_step n orig target s (set_phase w
       (decided (writer_todo n orig (target w) (s_writers s w))
         (primary_decision orig (s_primary s) (target w) (writer_votes n orig (target w) (s_writers s w)))) s)"
| spread:
    "w_phase (s_writers s w) = Spreading todo \<Longrightarrow> i \<in> todo \<Longrightarrow>
     slot_step n orig target s (set_phase w (Spreading (todo - {i}))
       (cas_backup i (the (w_back (s_writers s w) i)) (target w) s))"
| commit:
    "w_phase (s_writers s w) = Spreading {} \<Longrightarrow> slot_step n orig target s (set_phase w Committing s)"
| primary:
    "w_phase (s_writers s w) = Committing \<Longrightarrow>
     slot_step n orig target s (set_phase w (if s_primary s = orig then Won else Overtaken)
       (cas_primary orig (target w) s))"
| late_primary:
    "w_phase (s_writers s w) = Finished \<Longrightarrow>
     slot_step n orig target s (cas_primary orig (target w) s)"

definition slots_init :: "nat \<Rightarrow> 64 word \<Rightarrow> 'w slots" where
  "slots_init n orig = \<lparr>s_primary = orig, s_backups = replicate n orig,
     s_writers = (\<lambda>w. \<lparr>w_phase = Voting, w_back = Map.empty\<rparr>)\<rparr>"

abbreviation slot_run :: "nat \<Rightarrow> 64 word \<Rightarrow> ('w \<Rightarrow> 64 word) \<Rightarrow> 'w slots \<Rightarrow> bool" where
  "slot_run n orig target s \<equiv> (slot_step n orig target)\<^sup>*\<^sup>* (slots_init n orig) s"

section \<open>Who is elected\<close>

text \<open>A writer owns the backups it was the first to swap.\<close>

definition owns :: "64 word \<Rightarrow> 'w slots \<Rightarrow> 'w \<Rightarrow> nat \<Rightarrow> bool" where
  "owns orig s w i \<longleftrightarrow> w_back (s_writers s w) i = Some orig"

definition share :: "nat \<Rightarrow> 64 word \<Rightarrow> 'w slots \<Rightarrow> 'w \<Rightarrow> nat" where
  "share n orig s w = card {i. i < n \<and> owns orig s w i}"

definition elect :: "nat \<Rightarrow> 64 word \<Rightarrow> ('w \<Rightarrow> 64 word) \<Rightarrow> 'w slots \<Rightarrow> 'w \<Rightarrow> bool" where
  "elect n orig target s w \<longleftrightarrow> (\<forall>i < n. \<exists>u. owns orig s u i) \<and>
     (n < 2 * share n orig s w \<or>
      (\<forall>u. 2 * share n orig s u \<le> n) \<and> 0 < share n orig s w \<and>
      (\<forall>u. 0 < share n orig s u \<longrightarrow> target w \<le> target u))"

definition winning :: "'w slots \<Rightarrow> 'w \<Rightarrow> bool" where
  "winning s w \<longleftrightarrow> (case w_phase (s_writers s w) of
     Spreading _ \<Rightarrow> True | Committing \<Rightarrow> True | Won \<Rightarrow> True | _ \<Rightarrow> False)"

definition fair_targets :: "64 word \<Rightarrow> ('w \<Rightarrow> 64 word) \<Rightarrow> bool" where
  "fair_targets orig target \<longleftrightarrow> inj target \<and> orig \<notin> range target"

definition single_owner :: "nat \<Rightarrow> 64 word \<Rightarrow> 'w slots \<Rightarrow> bool" where
  "single_owner n orig s \<longleftrightarrow> (\<forall>i u w. i < n \<and> owns orig s u i \<and> owns orig s w i \<longrightarrow> u = w)"

lemma share_pos: "0 < share n orig s w \<longleftrightarrow> (\<exists>i < n. owns orig s w i)"
  by (auto simp: share_def card_gt_0_iff)

lemma share_two:
  assumes "single_owner n orig s" "u \<noteq> w"
  shows "share n orig s u + share n orig s w \<le> n"
proof -
  let ?U = "{i. i < n \<and> owns orig s u i}" and ?W = "{i. i < n \<and> owns orig s w i}"
  have "card ?U + card ?W = card (?U \<union> ?W)"
    using assms by (subst card_Un_disjoint) (auto simp: single_owner_def)
  also have "\<dots> \<le> card {..<n}" by (rule card_mono) auto
  finally show ?thesis by (simp add: share_def)
qed

lemma elect_unique:
  assumes "single_owner n orig s" "inj target" "elect n orig target s w" "elect n orig target s z"
  shows "w = z"
proof (rule ccontr)
  assume ne: "w \<noteq> z"
  note sh = share_two [OF assms(1) ne]
  have "2 * share n orig s w \<le> n \<or> 2 * share n orig s z \<le> n" using sh by linarith
  then have "target w \<le> target z" "target z \<le> target w"
    using assms(3,4) unfolding elect_def by (meson linorder_not_less)+
  then show False using assms(2) ne by (auto dest: injD)
qed

lemma elect_exists:
  assumes "0 < n" "\<forall>i < n. \<exists>u. owns orig s u i" "single_owner n orig s"
  shows "\<exists>w. elect n orig target s w"
proof (cases "\<exists>w. n < 2 * share n orig s w")
  case True
  then show ?thesis using assms(2) by (auto simp: elect_def)
next
  case False
  let ?O = "{u. 0 < share n orig s u}"
  obtain f where f: "\<forall>i < n. owns orig s (f i) i" using assms(2) by metis
  have "?O \<subseteq> f ` {..<n}" using f assms(3) by (fastforce simp: share_pos single_owner_def)
  then have fin: "finite ?O" by (rule finite_subset) simp
  have "f 0 \<in> ?O" using f assms(1) by (auto simp: share_pos)
  then have "Min (target ` ?O) \<in> target ` ?O" using fin by (intro Min_in) auto
  then obtain w where w: "w \<in> ?O" "target w = Min (target ` ?O)" by auto
  then have "elect n orig target s w" using False assms(2) fin by (auto simp: elect_def linorder_not_less)
  then show ?thesis ..
qed

section \<open>The invariant\<close>

definition slot_inv :: "nat \<Rightarrow> 64 word \<Rightarrow> ('w \<Rightarrow> 64 word) \<Rightarrow> 'w slots \<Rightarrow> bool" where
  "slot_inv n orig target s \<longleftrightarrow>
     length (s_backups s) = n \<and> single_owner n orig s \<and>
     (\<forall>i < n. (\<forall>u. \<not> owns orig s u i) \<longrightarrow> s_backups s ! i = orig) \<and>
     (\<forall>i < n. \<forall>u. owns orig s u i \<longrightarrow>
        s_backups s ! i = target u \<or> (\<exists>z. winning s z \<and> s_backups s ! i = target z)) \<and>
     (\<forall>i < n. \<forall>w b. w_back (s_writers s w) i = Some b \<and> b \<noteq> orig \<longrightarrow>
        (\<exists>u. owns orig s u i \<and> u \<noteq> w \<and> (b = target u \<or> (\<exists>z. winning s z \<and> b = target z)))) \<and>
     (\<forall>z. winning s z \<longrightarrow> elect n orig target s z) \<and>
     (\<forall>w. w_phase (s_writers s w) \<noteq> Voting \<longrightarrow> (\<forall>i < n. w_back (s_writers s w) i \<noteq> None)) \<and>
     (\<forall>w. w_phase (s_writers s w) = Checking \<longrightarrow>
        tally_decision n (target w) (writer_votes n orig (target w) (s_writers s w)) = KV_CONSENSUS_NON) \<and>
     (\<forall>z T. w_phase (s_writers s z) = Spreading T \<longrightarrow> T \<subseteq> {..<n} \<and>
        (\<forall>i < n. s_backups s ! i = (if i \<in> T then the (w_back (s_writers s z) i) else target z))) \<and>
     (\<forall>z. w_phase (s_writers s z) \<in> {Committing, Won} \<longrightarrow> (\<forall>i < n. s_backups s ! i = target z)) \<and>
     (s_primary s \<noteq> orig \<longrightarrow> (\<exists>z. w_phase (s_writers s z) = Won)) \<and>
     (\<forall>z. w_phase (s_writers s z) = Won \<longrightarrow> s_primary s = target z) \<and>
     (\<forall>w. w_phase (s_writers s w) \<noteq> Overtaken) \<and>
     (\<forall>w. w_phase (s_writers s w) = Finished \<longrightarrow> s_primary s \<noteq> orig) \<and>
     (\<forall>w. elect n orig target s w \<longrightarrow> w_phase (s_writers s w) \<notin> {Lost, Finished})"

lemma slot_invD:
  assumes "slot_inv n orig target s"
  shows inv_len: "length (s_backups s) = n"
    and inv_single: "single_owner n orig s"
    and inv_free: "i < n \<Longrightarrow> (\<And>u. \<not> owns orig s u i) \<Longrightarrow> s_backups s ! i = orig"
    and inv_held: "i < n \<Longrightarrow> owns orig s u i \<Longrightarrow>
        s_backups s ! i = target u \<or> (\<exists>z. winning s z \<and> s_backups s ! i = target z)"
    and inv_view: "i < n \<Longrightarrow> w_back (s_writers s w) i = Some b \<Longrightarrow> b \<noteq> orig \<Longrightarrow>
        \<exists>u. owns orig s u i \<and> u \<noteq> w \<and> (b = target u \<or> (\<exists>z. winning s z \<and> b = target z))"
    and inv_elected: "winning s z \<Longrightarrow> elect n orig target s z"
    and inv_back: "w_phase (s_writers s w) \<noteq> Voting \<Longrightarrow> i < n \<Longrightarrow> w_back (s_writers s w) i \<noteq> None"
    and inv_checking: "w_phase (s_writers s w) = Checking \<Longrightarrow>
        tally_decision n (target w) (writer_votes n orig (target w) (s_writers s w)) = KV_CONSENSUS_NON"
    and inv_todo: "w_phase (s_writers s z) = Spreading T \<Longrightarrow> T \<subseteq> {..<n}"
    and inv_spread: "w_phase (s_writers s z) = Spreading T \<Longrightarrow> i < n \<Longrightarrow>
        s_backups s ! i = (if i \<in> T then the (w_back (s_writers s z) i) else target z)"
    and inv_done: "w_phase (s_writers s z) \<in> {Committing, Won} \<Longrightarrow> i < n \<Longrightarrow> s_backups s ! i = target z"
    and inv_primary: "s_primary s \<noteq> orig \<Longrightarrow> \<exists>z. w_phase (s_writers s z) = Won"
    and inv_won: "w_phase (s_writers s z) = Won \<Longrightarrow> s_primary s = target z"
    and inv_overtaken: "w_phase (s_writers s w) \<noteq> Overtaken"
    and inv_finished: "w_phase (s_writers s w) = Finished \<Longrightarrow> s_primary s \<noteq> orig"
    and inv_lost: "elect n orig target s w \<Longrightarrow> w_phase (s_writers s w) \<notin> {Lost, Finished}"
  using assms unfolding slot_inv_def by ((elim conjE)?, metis)+

lemma slot_invI:
  assumes "length (s_backups s) = n" "single_owner n orig s"
    and "\<And>i. i < n \<Longrightarrow> (\<And>u. \<not> owns orig s u i) \<Longrightarrow> s_backups s ! i = orig"
    and "\<And>i u. i < n \<Longrightarrow> owns orig s u i \<Longrightarrow>
        s_backups s ! i = target u \<or> (\<exists>z. winning s z \<and> s_backups s ! i = target z)"
    and "\<And>i w b. i < n \<Longrightarrow> w_back (s_writers s w) i = Some b \<Longrightarrow> b \<noteq> orig \<Longrightarrow>
        \<exists>u. owns orig s u i \<and> u \<noteq> w \<and> (b = target u \<or> (\<exists>z. winning s z \<and> b = target z))"
    and "\<And>z. winning s z \<Longrightarrow> elect n orig target s z"
    and "\<And>w i. w_phase (s_writers s w) \<noteq> Voting \<Longrightarrow> i < n \<Longrightarrow> w_back (s_writers s w) i \<noteq> None"
    and "\<And>w. w_phase (s_writers s w) = Checking \<Longrightarrow>
        tally_decision n (target w) (writer_votes n orig (target w) (s_writers s w)) = KV_CONSENSUS_NON"
    and "\<And>z T. w_phase (s_writers s z) = Spreading T \<Longrightarrow> T \<subseteq> {..<n}"
    and "\<And>z T i. w_phase (s_writers s z) = Spreading T \<Longrightarrow> i < n \<Longrightarrow>
        s_backups s ! i = (if i \<in> T then the (w_back (s_writers s z) i) else target z)"
    and "\<And>z i. w_phase (s_writers s z) \<in> {Committing, Won} \<Longrightarrow> i < n \<Longrightarrow> s_backups s ! i = target z"
    and "s_primary s \<noteq> orig \<Longrightarrow> \<exists>z. w_phase (s_writers s z) = Won"
    and "\<And>z. w_phase (s_writers s z) = Won \<Longrightarrow> s_primary s = target z"
    and "\<And>w. w_phase (s_writers s w) \<noteq> Overtaken"
    and "\<And>w. w_phase (s_writers s w) = Finished \<Longrightarrow> s_primary s \<noteq> orig"
    and "\<And>w. elect n orig target s w \<Longrightarrow> w_phase (s_writers s w) \<notin> {Lost, Finished}"
  shows "slot_inv n orig target s"
  unfolding slot_inv_def by (intro conjI allI impI; (elim conjE)?; rule assms; simp)

lemma slot_inv_init: "0 < n \<Longrightarrow> slot_inv n orig target (slots_init n orig)"
  by (simp add: slot_inv_def slots_init_def single_owner_def owns_def winning_def)

lemma winning_unique:
  assumes "slot_inv n orig target s" "fair_targets orig target" "winning s u" "winning s w"
  shows "u = w"
  using elect_unique [OF inv_single [OF assms(1)] _ inv_elected [OF assms(1,3)] inv_elected [OF assms(1,4)]]
    assms(2) by (simp add: fair_targets_def)

subsection \<open>What a writer sees\<close>

lemma writer_votes_props [simp]:
  "length (writer_votes n orig t w) = n"
  "i < n \<Longrightarrow> writer_votes n orig t w ! i = vote orig t (the (w_back w i))"
  by (simp_all add: writer_votes_def)

lemma count_votes: "count_list (writer_votes n orig t w) v = card {i. i < n \<and> writer_votes n orig t w ! i = v}"
  by (simp add: count_list_eq_length_filter length_filter_conv_card eq_commute)

text \<open>
  Its own votes are the backups it owns; the others show their owner or, once
  somebody has won, the winner.
\<close>

lemma writer_view:
  assumes inv: "slot_inv n orig target s" and fair: "fair_targets orig target"
    and nw: "\<not> winning s w" and bks: "\<forall>i < n. w_back (s_writers s w) i \<noteq> None" and i: "i < n"
  defines "v \<equiv> writer_votes n orig (target w) (s_writers s w) ! i"
  shows "v = target w \<longleftrightarrow> owns orig s w i"
    and "\<exists>u. owns orig s u i \<and> (v = target u \<or> (\<exists>z. winning s z \<and> v = target z))"
proof -
  obtain b where b: "w_back (s_writers s w) i = Some b" using bks i by blast
  have inj: "target a = target c \<longleftrightarrow> a = c" for a c using fair by (auto simp: fair_targets_def dest: injD)
  have "(v = target w \<longleftrightarrow> owns orig s w i) \<and>
    (\<exists>u. owns orig s u i \<and> (v = target u \<or> (\<exists>z. winning s z \<and> v = target z)))"
  proof (cases "b = orig")
    case True
    then have "v = target w" "owns orig s w i" using b i by (simp_all add: v_def vote_def owns_def)
    then show ?thesis by blast
  next
    case False
    then obtain u where u: "owns orig s u i" "u \<noteq> w" "b = target u \<or> (\<exists>z. winning s z \<and> b = target z)"
      using inv_view [OF inv i b] by blast
    then have "b \<noteq> target w" using nw by (auto simp: inj)
    moreover have "\<not> owns orig s w i" using False b by (simp add: owns_def)
    moreover have "v = b" using b i False \<open>b \<noteq> target w\<close> by (simp add: v_def vote_def)
    ultimately show ?thesis using u by blast
  qed
  then show "v = target w \<longleftrightarrow> owns orig s w i"
    "\<exists>u. owns orig s u i \<and> (v = target u \<or> (\<exists>z. winning s z \<and> v = target z))" by blast+
qed

lemma own_count:
  assumes "slot_inv n orig target s" "fair_targets orig target" "\<not> winning s w"
    "\<forall>i < n. w_back (s_writers s w) i \<noteq> None"
  shows "count_list (writer_votes n orig (target w) (s_writers s w)) (target w) = share n orig s w"
  unfolding count_votes share_def by (rule arg_cong [of _ _ card]) (use writer_view(1) [OF assms] in blast)

text \<open>A winner's votes stay visible.\<close>

lemma winner_count:
  assumes inv: "slot_inv n orig target s" and fair: "fair_targets orig target"
    and "\<not> winning s w" "\<forall>i < n. w_back (s_writers s w) i \<noteq> None" and z: "winning s z"
  shows "share n orig s z \<le> count_list (writer_votes n orig (target w) (s_writers s w)) (target z)"
  unfolding count_votes share_def
proof (rule card_mono)
  show "{i. i < n \<and> owns orig s z i} \<subseteq> {i. i < n \<and> writer_votes n orig (target w) (s_writers s w) ! i = target z}"
  proof (intro subsetI, elim CollectE conjE, intro CollectI conjI)
    fix i assume i: "i < n" "owns orig s z i"
    obtain u where u: "owns orig s u i" "writer_votes n orig (target w) (s_writers s w) ! i = target u \<or>
        (\<exists>z. winning s z \<and> writer_votes n orig (target w) (s_writers s w) ! i = target z)"
      using writer_view(2) [OF assms(1-4) i(1)] by blast
    have "u = z" using inv_single [OF inv] i u(1) by (auto simp: single_owner_def)
    then show "writer_votes n orig (target w) (s_writers s w) ! i = target z"
      using u(2) winning_unique [OF inv fair z] by blast
  qed simp
qed simp

text \<open>Before anybody has won, every vote shows its owner.\<close>

lemma all_counts:
  assumes inv: "slot_inv n orig target s" and fair: "fair_targets orig target"
    and "\<not> winning s w" "\<forall>i < n. w_back (s_writers s w) i \<noteq> None" and nobody: "\<And>z. \<not> winning s z"
  shows "count_list (writer_votes n orig (target w) (s_writers s w)) (target u) = share n orig s u"
    and "v \<in> set (writer_votes n orig (target w) (s_writers s w)) \<longleftrightarrow> (\<exists>u. v = target u \<and> 0 < share n orig s u)"
proof -
  let ?vs = "writer_votes n orig (target w) (s_writers s w)"
  have o: "\<exists>u. owns orig s u i \<and> ?vs ! i = target u" if "i < n" for i
    using writer_view(2) [OF assms(1-4) that] nobody by blast
  have one: "owns orig s a i \<Longrightarrow> owns orig s b i \<Longrightarrow> a = b" if "i < n" for a b i
    using inv_single [OF inv] that by (auto simp: single_owner_def)
  have inj: "target a = target c \<Longrightarrow> a = c" for a c using fair by (auto simp: fair_targets_def dest: injD)
  have iff: "?vs ! i = target u \<longleftrightarrow> owns orig s u i" if "i < n" for i u
    using o [OF that] one [OF that] inj by metis
  show "count_list ?vs (target u) = share n orig s u"
    unfolding count_votes share_def by (rule arg_cong [of _ _ card]) (use iff in blast)
  show "v \<in> set ?vs \<longleftrightarrow> (\<exists>u. v = target u \<and> 0 < share n orig s u)"
  proof
    assume "v \<in> set ?vs"
    then obtain i where i: "i < n" "?vs ! i = v" by (auto simp: in_set_conv_nth)
    with o [OF i(1)] show "\<exists>u. v = target u \<and> 0 < share n orig s u" by (auto simp: share_pos)
  next
    assume "\<exists>u. v = target u \<and> 0 < share n orig s u"
    then obtain u i where "v = target u" "i < n" "owns orig s u i" by (auto simp: share_pos)
    then have "?vs ! i = v" using iff by blast
    then show "v \<in> set ?vs" using \<open>i < n\<close> by (metis nth_mem writer_votes_props(1))
  qed
qed

lemma all_owned:
  assumes "slot_inv n orig target s" "fair_targets orig target" "\<not> winning s w"
    "\<forall>i < n. w_back (s_writers s w) i \<noteq> None"
  shows "\<forall>i < n. \<exists>u. owns orig s u i"
  using writer_view(2) [OF assms] by blast

subsection \<open>The decision elects\<close>

lemma win_elect:
  assumes "slot_inv n orig target s" "fair_targets orig target" "0 < n" "\<not> winning s w"
    "\<forall>i < n. w_back (s_writers s w) i \<noteq> None"
    and "tally_decision n (target w) (writer_votes n orig (target w) (s_writers s w))
       \<in> {KV_CONSENSUS_WIN_ALL, KV_CONSENSUS_WIN_MAJOR}"
  shows "elect n orig target s w"
  using assms(6) tally_win_iff [OF _ assms(3)] own_count [OF assms(1,2,4,5)] all_owned [OF assms(1,2,4,5)]
  by (simp add: elect_def)

lemma little_elect:
  assumes inv: "slot_inv n orig target s" and fair: "fair_targets orig target" and n: "0 < n"
    and nw: "\<not> winning s w" and bks: "\<forall>i < n. w_back (s_writers s w) i \<noteq> None"
    and non: "tally_decision n (target w) (writer_votes n orig (target w) (s_writers s w)) = KV_CONSENSUS_NON"
    and hd: "hd (win_keys (writer_votes n orig (target w) (s_writers s w))) = target w"
  shows "elect n orig target s w"
proof -
  let ?vs = "writer_votes n orig (target w) (s_writers s w)"
  have le: "2 * count_list ?vs k \<le> n" for k using non tally_non_iff [OF _ n] by (metis writer_votes_props(1))
  have pos: "0 < share n orig s w"
    using non tally_non_iff [OF _ n] own_count [OF inv fair nw bks] by (metis writer_votes_props(1))
  have "?vs \<noteq> []" using n by (metis length_0_conv less_numeral_extra(3) writer_votes_props(1))
  then have least: "target w \<le> k" if "k \<in> set ?vs" for k using hd_win_keys(2) that hd by metis
  show ?thesis
  proof (cases "\<exists>z. winning s z")
    case True
    then obtain z where z: "winning s z" by blast
    note e = inv_elected [OF inv z]
    note c = winner_count [OF inv fair nw bks z]
    have "\<not> n < 2 * share n orig s z" using c le [of "target z"] by linarith
    then have m: "0 < share n orig s z" "target z \<le> target w" using e pos by (auto simp: elect_def)
    then have "target z \<in> set ?vs" using c by (metis count_notin leD)
    then have "target z = target w" using least m(2) by (simp add: antisym)
    then have "z = w" using fair by (auto simp: fair_targets_def dest: injD)
    then show ?thesis using nw z by simp
  next
    case False
    then have nobody: "\<not> winning s z" for z by blast
    have "2 * share n orig s u \<le> n" for u
      using le [of "target u"] all_counts(1) [OF inv fair nw bks nobody] by simp
    moreover have "target w \<le> target u" if "0 < share n orig s u" for u
      using least all_counts(2) [OF inv fair nw bks nobody] that by blast
    ultimately show ?thesis using pos all_owned [OF inv fair nw bks] by (simp add: elect_def)
  qed
qed

text \<open>The elected writer does not decide that it has lost.\<close>

lemma elected_decides:
  assumes inv: "slot_inv n orig target s" and fair: "fair_targets orig target" and n: "0 < n"
    and nw: "\<not> winning s w" and bks: "\<forall>i < n. w_back (s_writers s w) i \<noteq> None"
    and e: "elect n orig target s w"
  defines "vs \<equiv> writer_votes n orig (target w) (s_writers s w)"
  shows "tally_decision n (target w) vs \<noteq> KV_CONSENSUS_FAIL"
    and "s_primary s = orig"
    and "tally_decision n (target w) vs = KV_CONSENSUS_NON \<Longrightarrow> hd (win_keys vs) = target w"
proof -
  have nobody: "\<not> winning s z" for z
    using elect_unique [OF inv_single [OF inv] _ e, of z] inv_elected [OF inv, of z] nw fair
    by (auto simp: fair_targets_def)
  note ac = all_counts [OF inv fair nw bks nobody, folded vs_def]
  have len: "length vs = n" by (simp add: vs_def)
  show p: "s_primary s = orig"
  proof (rule ccontr)
    assume "s_primary s \<noteq> orig"
    then obtain z where "w_phase (s_writers s z) = Won" using inv_primary [OF inv] by blast
    then show False using nobody [of z] by (simp add: winning_def)
  qed
  have "tally_decision n (target w) vs \<in> {KV_CONSENSUS_WIN_ALL, KV_CONSENSUS_WIN_MAJOR, KV_CONSENSUS_NON}
     \<and> (tally_decision n (target w) vs = KV_CONSENSUS_NON \<longrightarrow> hd (win_keys vs) = target w)"
  proof (cases "n < 2 * share n orig s w")
    case True
    then show ?thesis using tally_win_iff [OF len n, of "target w"] ac(1) by auto
  next
    case False
    then have el: "2 * share n orig s u \<le> n" "0 < share n orig s w"
      "0 < share n orig s u \<Longrightarrow> target w \<le> target u" for u using e by (auto simp: elect_def)
    have "2 * count_list vs k \<le> n" for k
    proof (cases "k \<in> set vs")
      case True
      then obtain u where "k = target u" using ac(2) by blast
      then show ?thesis using ac(1) el(1) by simp
    qed (simp add: count_notin)
    then have non: "tally_decision n (target w) vs = KV_CONSENSUS_NON"
      using tally_non_iff [OF len n] ac(1) el(2) by simp
    have ne: "vs \<noteq> []" using len n by auto
    obtain u where u: "hd (win_keys vs) = target u" "0 < share n orig s u"
      using hd_win_keys(1) [OF ne] ac(2) by blast
    have "target w \<in> set vs" using ac(2) el(2) by blast
    then have "target u \<le> target w" using hd_win_keys(2) [OF ne] u(1) by metis
    then show ?thesis using non el(3) [OF u(2)] u(1) by simp
  qed
  then show "tally_decision n (target w) vs \<noteq> KV_CONSENSUS_FAIL"
    "tally_decision n (target w) vs = KV_CONSENSUS_NON \<Longrightarrow> hd (win_keys vs) = target w" by auto
qed

subsection \<open>Every action keeps the invariant\<close>

lemma set_phase_simps [simp]:
  "s_primary (set_phase w p s) = s_primary s" "s_backups (set_phase w p s) = s_backups s"
  "w_back (s_writers (set_phase w p s) u) = w_back (s_writers s u)"
  "w_phase (s_writers (set_phase w p s) u) = (if u = w then p else w_phase (s_writers s u))"
  by (simp_all add: set_phase_def)

lemma cas_simps [simp]:
  "s_primary (cas_backup i a b s) = s_primary s" "s_writers (cas_backup i a b s) = s_writers s"
  "s_backups (cas_primary a b s) = s_backups s" "s_writers (cas_primary a b s) = s_writers s"
  by (simp_all add: cas_backup_def cas_primary_def)

lemma owns_cong:
  assumes "\<And>u. w_back (s_writers s' u) = w_back (s_writers s u)"
  shows "owns orig s' = owns orig s" "share n orig s' = share n orig s"
    "elect n orig target s' = elect n orig target s" "single_owner n orig s' = single_owner n orig s"
proof -
  show o: "owns orig s' = owns orig s" by (simp add: fun_eq_iff owns_def assms)
  then show s: "share n orig s' = share n orig s" by (simp add: fun_eq_iff share_def)
  show "elect n orig target s' = elect n orig target s" by (simp add: fun_eq_iff elect_def o s)
  show "single_owner n orig s' = single_owner n orig s" by (simp add: single_owner_def o)
qed

lemma votes_cong:
  assumes "w_back a = w_back b"
  shows "writer_votes n orig t a = writer_votes n orig t b" "writer_todo n orig t a = writer_todo n orig t b"
  by (simp_all add: writer_votes_def writer_todo_def assms)

text \<open>A writer that is not winning moves to another phase that is not winning.\<close>

lemma keep_losing:
  assumes inv: "slot_inv n orig target s" and nw: "\<not> winning s w"
    and all: "\<forall>i < n. w_back (s_writers s w) i \<noteq> None"
    and p: "p \<in> {Checking, Lost, Finished}"
    and ck: "p = Checking \<Longrightarrow> tally_decision n (target w) (writer_votes n orig (target w) (s_writers s w)) = KV_CONSENSUS_NON"
    and fin: "p = Finished \<Longrightarrow> s_primary s \<noteq> orig"
    and el: "p \<in> {Lost, Finished} \<Longrightarrow> \<not> elect n orig target s w"
  shows "slot_inv n orig target (set_phase w p s)"
proof -
  let ?s = "set_phase w p s"
  have win: "winning ?s z \<longleftrightarrow> winning s z" for z
    using nw p by (auto simp: winning_def)
  have won: "(\<exists>z. w_phase (s_writers ?s z) = Won) \<longleftrightarrow> (\<exists>z. w_phase (s_writers s z) = Won)"
  proof -
    have "w_phase (s_writers ?s z) = Won \<longleftrightarrow> w_phase (s_writers s z) = Won" for z
      using nw p by (cases "z = w") (auto simp: winning_def)
    then show ?thesis by blast
  qed
  note ow = owns_cong [of ?s s, OF set_phase_simps(3)]
  note v = votes_cong [of "s_writers ?s u" "s_writers s u" for u, OF set_phase_simps(3)]
  have ph: "w_phase (s_writers ?s u) = q \<longleftrightarrow> w_phase (s_writers s u) = q"
    if "q = Spreading T \<or> q = Committing \<or> q = Won" for u q T
    using nw p that by (cases "u = w") (auto simp: winning_def)
  show ?thesis
  proof (rule slot_invI, unfold ow v win won)
    fix z T assume "w_phase (s_writers ?s z) = Spreading T"
    then have sp: "w_phase (s_writers s z) = Spreading T" using ph by blast
    then show "T \<subseteq> {..<n}" by (rule inv_todo [OF inv])
    show "s_backups ?s ! i = (if i \<in> T then the (w_back (s_writers ?s z) i) else target z)" if "i < n" for i
      using inv_spread [OF inv sp that] by simp
  next
    fix z i assume "w_phase (s_writers ?s z) \<in> {Committing, Won}" "i < n"
    then have "w_phase (s_writers s z) \<in> {Committing, Won}" using ph by blast
    then show "s_backups ?s ! i = target z" using inv_done [OF inv] \<open>i < n\<close> by simp
  next
    fix z assume "w_phase (s_writers ?s z) = Won"
    then have "w_phase (s_writers s z) = Won" using ph by blast
    then show "s_primary ?s = target z" using inv_won [OF inv] by simp
  next
    fix u assume "w_phase (s_writers ?s u) = Checking"
    then show "tally_decision n (target u) (writer_votes n orig (target u) (s_writers s u)) = KV_CONSENSUS_NON"
      using inv_checking [OF inv] ck by (auto split: if_splits)
  next
    fix u assume "w_phase (s_writers ?s u) = Finished"
    then show "s_primary ?s \<noteq> orig" using inv_finished [OF inv] fin by (auto split: if_splits)
  next
    fix u assume "elect n orig target s u"
    then show "w_phase (s_writers ?s u) \<notin> {Lost, Finished}"
      using inv_lost [OF inv] el p by (cases "u = w") auto
  next
    fix u i assume "w_phase (s_writers ?s u) \<noteq> Voting" "i < n"
    then show "w_back (s_writers ?s u) i \<noteq> None" using inv_back [OF inv] all by (cases "u = w") auto
  next
    fix u show "w_phase (s_writers ?s u) \<noteq> Overtaken" using inv_overtaken [OF inv] p by (cases "u = w") auto
  next
    fix i u b assume "i < n" "w_back (s_writers ?s u) i = Some b" "b \<noteq> orig"
    then show "\<exists>z. owns orig s z i \<and> z \<noteq> u \<and> (b = target z \<or> (\<exists>z. winning s z \<and> b = target z))"
      using inv_view [OF inv] by simp
  next
    fix i u assume "i < n" "owns orig s u i"
    then show "s_backups ?s ! i = target u \<or> (\<exists>z. winning s z \<and> s_backups ?s ! i = target z)"
      using inv_held [OF inv] by simp
  qed (use inv in \<open>simp_all add: inv_len inv_single inv_free inv_elected inv_primary\<close>)
qed

text \<open>A writer becomes the winner.\<close>

lemma start_winning:
  assumes inv: "slot_inv n orig target s" and fair: "fair_targets orig target" and nw: "\<not> winning s w"
    and all: "\<forall>i < n. w_back (s_writers s w) i \<noteq> None" and el: "elect n orig target s w"
  shows "slot_inv n orig target (set_phase w (Spreading (writer_todo n orig (target w) (s_writers s w))) s)"
proof -
  let ?T = "writer_todo n orig (target w) (s_writers s w)"
  let ?s = "set_phase w (Spreading ?T) s"
  have nobody: "\<not> winning s z" for z
    using elect_unique [OF inv_single [OF inv] _ el, of z] inv_elected [OF inv, of z] nw fair
    by (auto simp: fair_targets_def)
  have win: "winning ?s z \<longleftrightarrow> z = w" for z using nobody [of z] by (auto simp: winning_def)
  have nwon: "w_phase (s_writers s z) \<notin> {Committing, Won}" "w_phase (s_writers s z) \<noteq> Spreading T" for z T
    using nobody [of z] by (auto simp: winning_def)
  note ow = owns_cong [of ?s s, OF set_phase_simps(3)]
  note v = votes_cong [of "s_writers ?s u" "s_writers s u" for u, OF set_phase_simps(3)]
  have held: "s_backups s ! i = target u" if "i < n" "owns orig s u i" for i u
    using inv_held [OF inv that] nobody by blast
  have sp: "s_backups s ! i = (if i \<in> ?T then the (w_back (s_writers s w) i) else target w)" if i: "i < n" for i
  proof -
    obtain b where b: "w_back (s_writers s w) i = Some b" using all i by blast
    show ?thesis
    proof (cases "b = orig")
      case True
      then have "owns orig s w i" using b by (simp add: owns_def)
      then show ?thesis using held [OF i] b True by (simp add: writer_todo_def)
    next
      case False
      then obtain u where u: "owns orig s u i" "u \<noteq> w" "b = target u"
        using inv_view [OF inv i b] nobody by blast
      then have "b \<noteq> target w" using fair by (auto simp: fair_targets_def dest: injD)
      then show ?thesis using b False i u held [OF i u(1)] by (simp add: writer_todo_def)
    qed
  qed
  have p: "s_primary s = orig" using inv_primary [OF inv] nwon(1) by blast
  show ?thesis
  proof (rule slot_invI, unfold ow v win)
    fix i u b assume "i < n" "w_back (s_writers ?s u) i = Some b" "b \<noteq> orig"
    then show "\<exists>z. owns orig s z i \<and> z \<noteq> u \<and> (b = target z \<or> (\<exists>z. z = w \<and> b = target z))"
      using inv_view [OF inv] nobody by simp blast
  next
    fix u i assume "w_phase (s_writers ?s u) \<noteq> Voting" "i < n"
    then show "w_back (s_writers ?s u) i \<noteq> None" using inv_back [OF inv] all by (cases "u = w") auto
  next
    fix z T assume z: "w_phase (s_writers ?s z) = Spreading T"
    then have zw: "z = w" "T = ?T" using nwon(2) [of z T] by (auto split: if_splits)
    show "T \<subseteq> {..<n}" using zw by (auto simp: writer_todo_def)
    show "s_backups ?s ! i = (if i \<in> T then the (w_back (s_writers ?s z) i) else target z)" if "i < n" for i
      using sp [OF that] zw by simp
  next
    fix u assume "w_phase (s_writers ?s u) = Checking"
    then show "tally_decision n (target u) (writer_votes n orig (target u) (s_writers s u)) = KV_CONSENSUS_NON"
      using inv_checking [OF inv] by (auto split: if_splits)
  next
    fix u show "w_phase (s_writers ?s u) \<noteq> Overtaken" using inv_overtaken [OF inv] by simp
  next
    fix u assume "w_phase (s_writers ?s u) = Finished"
    then show "s_primary ?s \<noteq> orig" using inv_finished [OF inv] by (auto split: if_splits)
  next
    fix u assume "elect n orig target s u"
    then show "w_phase (s_writers ?s u) \<notin> {Lost, Finished}" using inv_lost [OF inv] by simp
  next
    fix z i assume "w_phase (s_writers ?s z) \<in> {Committing, Won}"
    then show "s_backups ?s ! i = target z" using nwon(1) [of z] by (auto split: if_splits)
  next
    fix z assume "w_phase (s_writers ?s z) = Won"
    then show "s_primary ?s = target z" using nwon(1) [of z] by (auto split: if_splits)
  qed (use inv el held p in \<open>simp_all add: inv_len inv_single inv_free\<close>)
qed

lemma inv_decide:
  assumes inv: "slot_inv n orig target s" and fair: "fair_targets orig target" and n: "0 < n"
    and ph: "w_phase (s_writers s w) = Voting" and all: "\<forall>i < n. w_back (s_writers s w) i \<noteq> None"
  shows "slot_inv n orig target (set_phase w
       (decided (writer_todo n orig (target w) (s_writers s w))
         (tally_decision n (target w) (writer_votes n orig (target w) (s_writers s w)))) s)"
proof -
  let ?d = "tally_decision n (target w) (writer_votes n orig (target w) (s_writers s w))"
  have nw: "\<not> winning s w" using ph by (simp add: winning_def)
  consider "?d \<in> {KV_CONSENSUS_WIN_ALL, KV_CONSENSUS_WIN_MAJOR}" | "?d = KV_CONSENSUS_FAIL" | "?d = KV_CONSENSUS_NON"
    using tally_range by auto
  then show ?thesis
  proof cases
    case 1
    note start_winning [OF inv fair nw all win_elect [OF inv fair n nw all 1]]
    then show ?thesis using 1 by auto
  next
    case 2
    then have "\<not> elect n orig target s w" using elected_decides(1) [OF inv fair n nw all] by blast
    then show ?thesis unfolding 2 by (intro keep_losing [OF inv nw all]) simp_all
  next
    case 3
    then show ?thesis by (intro keep_losing [OF inv nw all]) simp_all
  qed
qed

lemma inv_check:
  assumes inv: "slot_inv n orig target s" and fair: "fair_targets orig target" and n: "0 < n"
    and ph: "w_phase (s_writers s w) = Checking"
  shows "slot_inv n orig target (set_phase w
       (decided (writer_todo n orig (target w) (s_writers s w))
         (primary_decision orig (s_primary s) (target w) (writer_votes n orig (target w) (s_writers s w)))) s)"
proof -
  have nw: "\<not> winning s w" using ph by (simp add: winning_def)
  have all: "\<forall>i < n. w_back (s_writers s w) i \<noteq> None" using inv_back [OF inv, of w] ph by auto
  note non = inv_checking [OF inv ph]
  note el = elected_decides [OF inv fair n nw all]
  show ?thesis
  proof (cases "s_primary s = orig")
    case False
    then have "\<not> elect n orig target s w" using el(2) by blast
    then show ?thesis using False by (intro keep_losing [OF inv nw all]) (simp_all add: primary_decision_def)
  next
    case p: True
    show ?thesis
    proof (cases "hd (win_keys (writer_votes n orig (target w) (s_writers s w))) = target w")
      case True
      note start_winning [OF inv fair nw all little_elect [OF inv fair n nw all non True]]
      then show ?thesis using p True by (simp add: primary_decision_def)
    next
      case False
      then have "\<not> elect n orig target s w" using el(3) non by blast
      then show ?thesis using p False by (intro keep_losing [OF inv nw all]) (simp_all add: primary_decision_def)
    qed
  qed
qed

lemma nth_list_update_or: "xs[i := v] ! j = xs ! j \<or> xs[i := v] ! j = v"
  by (cases "i < length xs") (auto simp: nth_list_update list_update_beyond not_less)

text \<open>Until the winner has swung the primary, nobody has.\<close>

lemma winning_primary:
  assumes inv: "slot_inv n orig target s" and fair: "fair_targets orig target"
    and win: "winning s w" and ph: "w_phase (s_writers s w) \<noteq> Won"
  shows "s_primary s = orig"
proof (rule ccontr)
  assume "s_primary s \<noteq> orig"
  then obtain z where z: "w_phase (s_writers s z) = Won" using inv_primary [OF inv] by blast
  then have "z = w" using winning_unique [OF inv fair _ win, of z] by (simp add: winning_def)
  then show False using z ph by simp
qed

text \<open>A step of the winner that stays the winner, given what its new phase asks for.\<close>

lemma keep_winning:
  assumes inv: "slot_inv n orig target s" and fair: "fair_targets orig target"
    and win: "winning s w" and nwon: "w_phase (s_writers s w) \<noteq> Won"
    and wr: "\<And>u. s_writers s' u = (if u = w then (s_writers s w)\<lparr>w_phase := p\<rparr> else s_writers s u)"
    and p: "p \<in> insert Committing (insert Won (range Spreading))"
    and len: "length (s_backups s') = n"
    and bk: "\<And>i. i < n \<Longrightarrow> s_backups s' ! i = s_backups s ! i \<or> s_backups s' ! i = target w"
    and sp: "\<And>T. p = Spreading T \<Longrightarrow> T \<subseteq> {..<n} \<and>
        (\<forall>i < n. s_backups s' ! i = (if i \<in> T then the (w_back (s_writers s w) i) else target w))"
    and dn: "\<And>i. p \<in> {Committing, Won} \<Longrightarrow> i < n \<Longrightarrow> s_backups s' ! i = target w"
    and pr: "if p = Won then s_primary s' = target w else s_primary s' = orig"
  shows "slot_inv n orig target s'"
proof -
  have wb: "w_back (s_writers s' u) = w_back (s_writers s u)" for u by (simp add: wr)
  note ow = owns_cong [of s' s, OF wb]
  have v: "writer_votes n orig t (s_writers s' u) = writer_votes n orig t (s_writers s u)" for t u
    by (rule votes_cong) (rule wb)
  have ww: "winning s' z \<longleftrightarrow> z = w" for z
    using winning_unique [OF inv fair win, of z] p by (auto simp: winning_def wr split: if_splits)
  have w0: "winning s z \<longleftrightarrow> z = w" for z using winning_unique [OF inv fair win, of z] win by blast
  have ph: "w_phase (s_writers s' u) = (if u = w then p else w_phase (s_writers s u))" for u by (simp add: wr)
  have nw: "u \<noteq> w \<Longrightarrow> w_phase (s_writers s u) \<notin> insert Committing (insert Won (range Spreading))" for u
    using w0 [of u] by (auto simp: winning_def)
  have voting: "w_phase (s_writers s w) \<noteq> Voting" using win by (auto simp: winning_def)
  note el = inv_elected [OF inv win]
  have own: "\<exists>u. owns orig s u i" if "i < n" for i using el that by (simp add: elect_def)
  show ?thesis
  proof (rule slot_invI, unfold ow v ww)
    show "length (s_backups s') = n" by (rule len)
    show "single_owner n orig s" by (rule inv_single [OF inv])
  next
    fix i assume "i < n" "\<And>u. \<not> owns orig s u i"
    then show "s_backups s' ! i = orig" using own by blast
  next
    fix i u assume "i < n" "owns orig s u i"
    then show "s_backups s' ! i = target u \<or> (\<exists>z. z = w \<and> s_backups s' ! i = target z)"
      using inv_held [OF inv] bk w0 by metis
  next
    fix i u b assume "i < n" "w_back (s_writers s' u) i = Some b" "b \<noteq> orig"
    then show "\<exists>z. owns orig s z i \<and> z \<noteq> u \<and> (b = target z \<or> (\<exists>z. z = w \<and> b = target z))"
      using inv_view [OF inv] w0 by (simp add: wb)
  next
    fix z assume "z = w" then show "elect n orig target s z" using el by simp
  next
    fix u i assume "w_phase (s_writers s' u) \<noteq> Voting" "i < n"
    then show "w_back (s_writers s' u) i \<noteq> None"
      using inv_back [OF inv] voting by (cases "u = w") (auto simp: ph wb)
  next
    fix u assume "w_phase (s_writers s' u) = Checking"
    then show "tally_decision n (target u) (writer_votes n orig (target u) (s_writers s u)) = KV_CONSENSUS_NON"
      using inv_checking [OF inv] p by (auto simp: ph split: if_splits)
  next
    fix z T assume "w_phase (s_writers s' z) = Spreading T"
    then have z: "z = w" "p = Spreading T" using nw [of z] by (auto simp: ph split: if_splits)
    then show "T \<subseteq> {..<n}" using sp by blast
    show "s_backups s' ! i = (if i \<in> T then the (w_back (s_writers s' z) i) else target z)" if "i < n" for i
      using sp z that by (simp add: wb)
  next
    fix z i assume "w_phase (s_writers s' z) \<in> {Committing, Won}" "i < n"
    then have "z = w" "p \<in> {Committing, Won}" using nw [of z] by (auto simp: ph split: if_splits)
    then show "s_backups s' ! i = target z" using dn \<open>i < n\<close> by simp
  next
    assume "s_primary s' \<noteq> orig"
    then have "w_phase (s_writers s' w) = Won" using pr by (simp add: ph split: if_splits)
    then show "\<exists>z. w_phase (s_writers s' z) = Won" ..
  next
    fix z assume "w_phase (s_writers s' z) = Won"
    then have "z = w" "p = Won" using nw [of z] by (auto simp: ph split: if_splits)
    then show "s_primary s' = target z" using pr by simp
  next
    fix u show "w_phase (s_writers s' u) \<noteq> Overtaken"
      using inv_overtaken [OF inv] p by (auto simp: ph)
  next
    fix u assume f: "w_phase (s_writers s' u) = Finished"
    then have "u \<noteq> w" "w_phase (s_writers s u) = Finished" using p by (auto simp: ph split: if_splits)
    then obtain z where z: "w_phase (s_writers s z) = Won"
      using inv_finished [OF inv] inv_primary [OF inv] by blast
    then have "z = w" using nw [of z] by auto
    then show "s_primary s' \<noteq> orig" using z nwon by simp
  next
    fix u assume "elect n orig target s u"
    then show "w_phase (s_writers s' u) \<notin> {Lost, Finished}"
      using inv_lost [OF inv] p by (auto simp: ph)
  qed
qed

lemma inv_spread_step:
  assumes inv: "slot_inv n orig target s" and fair: "fair_targets orig target"
    and ph: "w_phase (s_writers s w) = Spreading todo" and i: "i \<in> todo"
  shows "slot_inv n orig target (set_phase w (Spreading (todo - {i}))
       (cas_backup i (the (w_back (s_writers s w) i)) (target w) s))"
proof (rule keep_winning [OF inv fair, where w = w and p = "Spreading (todo - {i})"])
  have win: "winning s w" using ph by (simp add: winning_def)
  have sub: "todo \<subseteq> {..<n}" by (rule inv_todo [OF inv ph])
  have bk: "j < n \<Longrightarrow> s_backups s ! j = (if j \<in> todo then the (w_back (s_writers s w) j) else target w)" for j
    by (rule inv_spread [OF inv ph])
  note len = inv_len [OF inv]
  show "winning s w" "w_phase (s_writers s w) \<noteq> Won" using win ph by simp_all
  show "T \<subseteq> {..<n} \<and> (\<forall>j < n. s_backups (set_phase w (Spreading (todo - {i}))
       (cas_backup i (the (w_back (s_writers s w) i)) (target w) s)) ! j =
       (if j \<in> T then the (w_back (s_writers s w) j) else target w))" if "Spreading (todo - {i}) = Spreading T" for T
  proof -
    have "i < n" using sub i by auto
    then have "s_backups (cas_backup i (the (w_back (s_writers s w) i)) (target w) s) = (s_backups s)[i := target w]"
      using bk i by (simp add: cas_backup_def)
    then show ?thesis using that sub bk len \<open>i < n\<close> by (auto simp: nth_list_update)
  qed
  show "if Spreading (todo - {i}) = Won then s_primary (set_phase w (Spreading (todo - {i}))
       (cas_backup i (the (w_back (s_writers s w) i)) (target w) s)) = target w
     else s_primary (set_phase w (Spreading (todo - {i}))
       (cas_backup i (the (w_back (s_writers s w) i)) (target w) s)) = orig"
    using winning_primary [OF inv fair win] ph by simp
qed (use inv_len [OF inv] in \<open>auto simp: cas_backup_def nth_list_update_or\<close>)

lemma inv_commit:
  assumes inv: "slot_inv n orig target s" and fair: "fair_targets orig target"
    and ph: "w_phase (s_writers s w) = Spreading {}"
  shows "slot_inv n orig target (set_phase w Committing s)"
proof (rule keep_winning [OF inv fair, where w = w and p = Committing])
  show win: "winning s w" and nwon: "w_phase (s_writers s w) \<noteq> Won" using ph by (simp_all add: winning_def)
  show "if Committing = Won then s_primary (set_phase w Committing s) = target w
      else s_primary (set_phase w Committing s) = orig"
    using winning_primary [OF inv fair win nwon] by simp
qed (use inv_len [OF inv] inv_spread [OF inv ph] in auto)

lemma inv_primary_step:
  assumes inv: "slot_inv n orig target s" and fair: "fair_targets orig target"
    and ph: "w_phase (s_writers s w) = Committing"
  shows "slot_inv n orig target (set_phase w (if s_primary s = orig then Won else Overtaken)
       (cas_primary orig (target w) s))"
proof -
  have win: "winning s w" and nwon: "w_phase (s_writers s w) \<noteq> Won" using ph by (simp_all add: winning_def)
  have p: "s_primary s = orig" by (rule winning_primary [OF inv fair win nwon])
  have "slot_inv n orig target (set_phase w Won (cas_primary orig (target w) s))"
    by (rule keep_winning [OF inv fair win nwon, where p = Won])
      (use p inv_len [OF inv] inv_done [OF inv, of w] ph in \<open>auto simp: cas_primary_def\<close>)
  then show ?thesis using p by simp
qed

lemma inv_late:
  assumes inv: "slot_inv n orig target s" and ph: "w_phase (s_writers s w) = Finished"
  shows "cas_primary orig (target w) s = s"
  using inv_finished [OF inv ph] by (simp add: cas_primary_def)

subsection \<open>A swap of a backup\<close>

text \<open>A backup nobody owns yet keeps every writer collecting votes.\<close>

lemma unowned_voting:
  assumes inv: "slot_inv n orig target s" and i: "i < n" and un: "\<And>u. \<not> owns orig s u i"
  shows "w_phase (s_writers s u) = Voting"
proof (rule ccontr)
  assume "w_phase (s_writers s u) \<noteq> Voting"
  then obtain b where b: "w_back (s_writers s u) i = Some b" using inv_back [OF inv] i by blast
  show False
  proof (cases "b = orig")
    case True
    then show ?thesis using b un by (simp add: owns_def)
  next
    case False
    then show ?thesis using inv_view [OF inv i b] un by blast
  qed
qed

definition swapped :: "64 word \<Rightarrow> ('w \<Rightarrow> 64 word) \<Rightarrow> 'w \<Rightarrow> nat \<Rightarrow> 'w slots \<Rightarrow> 'w slots" where
  "swapped orig target w i s = cas_backup i orig (target w)
     (s\<lparr>s_writers := (s_writers s)(w := (s_writers s w)\<lparr>w_back := (w_back (s_writers s w))(i \<mapsto> s_backups s ! i)\<rparr>)\<rparr>)"

lemma swapped_simps [simp]:
  "s_primary (swapped orig target w i s) = s_primary s"
  "w_phase (s_writers (swapped orig target w i s) u) = w_phase (s_writers s u)"
  "winning (swapped orig target w i s) = winning s"
  "s_backups (swapped orig target w i s) =
     (if s_backups s ! i = orig then (s_backups s)[i := target w] else s_backups s)"
  "w_back (s_writers (swapped orig target w i s) u) j =
     (if u = w \<and> j = i then Some (s_backups s ! i) else w_back (s_writers s u) j)"
  "u \<noteq> w \<Longrightarrow> s_writers (swapped orig target w i s) u = s_writers s u"
  by (simp_all add: swapped_def cas_backup_def winning_def fun_eq_iff)

lemma owns_swapped:
  assumes "w_back (s_writers s w) i = None"
  shows "owns orig (swapped orig target w i s) u j \<longleftrightarrow>
     owns orig s u j \<or> u = w \<and> j = i \<and> s_backups s ! i = orig"
  using assms by (auto simp: owns_def)

lemma inv_orig_unowned:
  assumes inv: "slot_inv n orig target s" and fair: "fair_targets orig target"
    and i: "i < n" and b: "s_backups s ! i = orig"
  shows "\<not> owns orig s u i"
proof
  assume "owns orig s u i"
  from inv_held [OF inv i this] have "orig \<in> range target" using b by auto
  then show False using fair by (simp add: fair_targets_def)
qed

lemma inv_swap_free:
  assumes inv: "slot_inv n orig target s" and fair: "fair_targets orig target"
    and i: "i < n" and none: "w_back (s_writers s w) i = None" and b: "s_backups s ! i = orig"
  shows "slot_inv n orig target (swapped orig target w i s)"
proof -
  let ?s = "swapped orig target w i s"
  note own = owns_swapped [OF none, of orig target]
  note un = inv_orig_unowned [OF inv fair i b]
  note voting = unowned_voting [OF inv i un]
  have nobody: "\<not> winning s z" for z by (simp add: winning_def voting)
  note len = inv_len [OF inv]
  show ?thesis
  proof (rule slot_invI)
    show "single_owner n orig ?s"
      using inv_single [OF inv] un by (auto simp: single_owner_def own)
    show "s_backups ?s ! j = orig" if "j < n" "\<And>u. \<not> owns orig ?s u j" for j
      using that(2) inv_free [OF inv that(1)] b by (cases "j = i") (auto simp: own)
    show "s_backups ?s ! j = target u \<or> (\<exists>z. winning ?s z \<and> s_backups ?s ! j = target z)"
      if "j < n" "owns orig ?s u j" for j u
      using that inv_held [OF inv that(1), of u] un nobody b len i by (cases "j = i") (auto simp: own)
    show "\<exists>z. owns orig ?s z j \<and> z \<noteq> u \<and> (c = target z \<or> (\<exists>z. winning ?s z \<and> c = target z))"
      if "j < n" "w_back (s_writers ?s u) j = Some c" "c \<noteq> orig" for j u c
    proof -
      have "w_back (s_writers s u) j = Some c" using that b by (auto split: if_splits)
      from inv_view [OF inv that(1) this that(3)] show ?thesis using nobody by (auto simp: own)
    qed
  qed (use len voting nobody inv_primary [OF inv] in \<open>auto simp: b\<close>)
qed

lemma inv_swap_held:
  assumes inv: "slot_inv n orig target s"
    and i: "i < n" and none: "w_back (s_writers s w) i = None" and b: "s_backups s ! i \<noteq> orig"
    and ph: "w_phase (s_writers s w) = Voting"
  shows "slot_inv n orig target (swapped orig target w i s)"
proof -
  let ?s = "swapped orig target w i s"
  have ow: "owns orig ?s = owns orig s" using b by (simp add: fun_eq_iff owns_swapped [OF none])
  have sh: "share n orig ?s = share n orig s" by (simp add: fun_eq_iff share_def ow)
  have el: "elect n orig target ?s = elect n orig target s" by (simp add: fun_eq_iff elect_def ow sh)
  obtain v where v: "owns orig s v i" using inv_free [OF inv i] b by blast
  show ?thesis
  proof (rule slot_invI, unfold ow el)
    show "single_owner n orig ?s" using inv_single [OF inv] by (simp add: single_owner_def ow)
    show "\<exists>z. owns orig s z j \<and> z \<noteq> u \<and> (c = target z \<or> (\<exists>z. winning ?s z \<and> c = target z))"
      if j: "j < n" and c: "w_back (s_writers ?s u) j = Some c" "c \<noteq> orig" for j u c
    proof (cases "u = w \<and> j = i")
      case True
      then have "c = s_backups s ! i" "v \<noteq> u" using c none v by (auto simp: owns_def)
      then show ?thesis using inv_held [OF inv i v] v True by auto
    next
      case False
      then have "w_back (s_writers s u) j = Some c" using c(1) by (simp split: if_splits)
      then show ?thesis using inv_view [OF inv j _ c(2)] by simp
    qed
    show "tally_decision n (target u) (writer_votes n orig (target u) (s_writers ?s u)) = KV_CONSENSUS_NON"
      if "w_phase (s_writers ?s u) = Checking" for u
    proof -
      have "u \<noteq> w" using that ph by auto
      then show ?thesis using inv_checking [OF inv] that by simp
    qed
    show "s_backups ?s ! j = (if j \<in> T then the (w_back (s_writers ?s z) j) else target z)"
      if "w_phase (s_writers ?s z) = Spreading T" "j < n" for z T j
    proof -
      have "z \<noteq> w" using that ph by auto
      then show ?thesis using inv_spread [OF inv, of z T] that b by simp
    qed
    show "w_back (s_writers ?s u) j \<noteq> None" if "w_phase (s_writers ?s u) \<noteq> Voting" "j < n" for u j
      using that inv_back [OF inv, of u] by simp
    show "w_phase (s_writers ?s z) = Spreading T \<Longrightarrow> T \<subseteq> {..<n}" for z T using inv_todo [OF inv, of z T] by simp
    show "s_backups ?s ! j = target z" if "w_phase (s_writers ?s z) \<in> {Committing, Won}" "j < n" for z j
      using that inv_done [OF inv, of z] b by simp
    show "w_phase (s_writers ?s u) \<notin> {Lost, Finished}" if "elect n orig target s u" for u
      using inv_lost [OF inv that] by simp
  qed (use inv_len [OF inv] inv_free [OF inv] inv_held [OF inv] inv_elected [OF inv] inv_primary [OF inv]
        inv_won [OF inv] inv_overtaken [OF inv] inv_finished [OF inv] b in \<open>simp_all\<close>)
qed

theorem slot_step_inv:
  assumes "slot_step n orig target s s'" "slot_inv n orig target s" "fair_targets orig target" "0 < n"
  shows "slot_inv n orig target s'"
  using assms
proof (induction rule: slot_step.induct)
  case (swap_backup s w i)
  then show ?case unfolding swapped_def [symmetric]
    by (cases "s_backups s ! i = orig") (simp_all add: inv_swap_free inv_swap_held)
next
  case (late_primary s w)
  then show ?case using inv_late [of n orig target s w] by simp
qed (simp_all only: inv_decide inv_check inv_spread_step inv_commit inv_primary_step)

theorem slot_run_inv:
  assumes "slot_run n orig target s" "fair_targets orig target" "0 < n"
  shows "slot_inv n orig target s"
  using assms(1) by (induction rule: rtranclp_induct) (auto intro: slot_inv_init slot_step_inv assms(2,3))

section \<open>What the writers can rely on\<close>

lemma run_free_targets: "fair_targets orig target \<Longrightarrow> target w \<noteq> orig"
  by (auto simp: fair_targets_def)

lemma step_eq: "slot_step n orig target s s1 \<Longrightarrow> s1 = s2 \<Longrightarrow> slot_step n orig target s s2"
  by simp

text \<open>A slot on two backups, raced for by two writers that swap one backup each.\<close>

definition race_target :: "bool \<Rightarrow> 64 word" where
  "race_target w = (if w then 7 else 5)"

definition race_at :: "64 word \<Rightarrow> 64 word list \<Rightarrow> writer \<Rightarrow> writer \<Rightarrow> bool slots" where
  "race_at p bs f t = \<lparr>s_primary = p, s_backups = bs, s_writers = (\<lambda>w. if w then t else f)\<rparr>"

abbreviation wr :: "wphase \<Rightarrow> (nat \<rightharpoonup> 64 word) \<Rightarrow> writer" where
  "wr p b \<equiv> \<lparr>w_phase = p, w_back = b\<rparr>"

lemma run_cons: "slot_step n orig target s s' \<Longrightarrow> (slot_step n orig target)\<^sup>*\<^sup>* s' s'' \<Longrightarrow>
    (slot_step n orig target)\<^sup>*\<^sup>* s s''"
  by (rule converse_rtranclp_into_rtranclp)

lemma upto_two: "[0..<2] = [0, 1 :: nat]" and less_two: "i < 2 \<longleftrightarrow> i = 0 \<or> i = (1 :: nat)"
  by (auto simp: upt_conv_Cons)

lemmas race_defs = race_at_def race_target_def cas_backup_def cas_primary_def set_phase_def fun_eq_iff
  writer_votes_def writer_todo_def vote_def tally_decision_def primary_decision_def maj_val_def win_keys_def
  upto_two less_two

lemma fair_race: "fair_targets 3 race_target"
  by (auto simp: fair_targets_def race_target_def inj_def split: if_splits)

abbreviation race_step :: "bool slots \<Rightarrow> bool slots \<Rightarrow> bool" where
  "race_step \<equiv> slot_step 2 3 race_target"

lemma race_votes:
  "race_step (race_at 3 [3, 3] (wr Voting Map.empty) (wr Voting Map.empty))
     (race_at 3 [5, 3] (wr Voting [0 \<mapsto> 3]) (wr Voting Map.empty))"
  "race_step (race_at 3 [5, 3] (wr Voting [0 \<mapsto> 3]) (wr Voting Map.empty))
     (race_at 3 [5, 7] (wr Voting [0 \<mapsto> 3]) (wr Voting [1 \<mapsto> 3]))"
  "race_step (race_at 3 [5, 7] (wr Voting [0 \<mapsto> 3]) (wr Voting [1 \<mapsto> 3]))
     (race_at 3 [5, 7] (wr Voting [0 \<mapsto> 3, 1 \<mapsto> 7]) (wr Voting [1 \<mapsto> 3]))"
  "race_step (race_at 3 [5, 7] (wr Voting [0 \<mapsto> 3, 1 \<mapsto> 7]) (wr Voting [1 \<mapsto> 3]))
     (race_at 3 [5, 7] (wr Voting [0 \<mapsto> 3, 1 \<mapsto> 7]) (wr Voting [0 \<mapsto> 5, 1 \<mapsto> 3]))"
  subgoal by (rule step_eq [OF slot_step.swap_backup [where w = False and i = 0]]; simp add: race_defs)
  subgoal by (rule step_eq [OF slot_step.swap_backup [where w = True and i = 1]]; simp add: race_defs)
  subgoal by (rule step_eq [OF slot_step.swap_backup [where w = False and i = 1]]; simp add: race_defs)
  subgoal by (rule step_eq [OF slot_step.swap_backup [where w = True and i = 0]]; simp add: race_defs)
  done

lemma race_decisions:
  "race_step (race_at 3 [5, 7] (wr Voting [0 \<mapsto> 3, 1 \<mapsto> 7]) (wr Voting [0 \<mapsto> 5, 1 \<mapsto> 3]))
     (race_at 3 [5, 7] (wr Checking [0 \<mapsto> 3, 1 \<mapsto> 7]) (wr Voting [0 \<mapsto> 5, 1 \<mapsto> 3]))"
  "race_step (race_at 3 [5, 7] (wr Checking [0 \<mapsto> 3, 1 \<mapsto> 7]) (wr Voting [0 \<mapsto> 5, 1 \<mapsto> 3]))
     (race_at 3 [5, 7] (wr Checking [0 \<mapsto> 3, 1 \<mapsto> 7]) (wr Checking [0 \<mapsto> 5, 1 \<mapsto> 3]))"
  "race_step (race_at 3 [5, 7] (wr Checking [0 \<mapsto> 3, 1 \<mapsto> 7]) (wr Checking [0 \<mapsto> 5, 1 \<mapsto> 3]))
     (race_at 3 [5, 7] (wr (Spreading {1}) [0 \<mapsto> 3, 1 \<mapsto> 7]) (wr Checking [0 \<mapsto> 5, 1 \<mapsto> 3]))"
  "race_step (race_at 3 [5, 7] (wr (Spreading {1}) [0 \<mapsto> 3, 1 \<mapsto> 7]) (wr Checking [0 \<mapsto> 5, 1 \<mapsto> 3]))
     (race_at 3 [5, 7] (wr (Spreading {1}) [0 \<mapsto> 3, 1 \<mapsto> 7]) (wr Lost [0 \<mapsto> 5, 1 \<mapsto> 3]))"
  subgoal by (rule step_eq [OF slot_step.decide [where w = False]]; simp add: race_defs)
  subgoal by (rule step_eq [OF slot_step.decide [where w = True]]; simp add: race_defs)
  subgoal by (rule step_eq [OF slot_step.check [where w = False]]; (simp add: race_defs)?; auto)
  subgoal by (rule step_eq [OF slot_step.check [where w = True]]; simp add: race_defs)
  done

lemma race_writes:
  "race_step (race_at 3 [5, 7] (wr (Spreading {1}) [0 \<mapsto> 3, 1 \<mapsto> 7]) (wr Lost [0 \<mapsto> 5, 1 \<mapsto> 3]))
     (race_at 3 [5, 5] (wr (Spreading {}) [0 \<mapsto> 3, 1 \<mapsto> 7]) (wr Lost [0 \<mapsto> 5, 1 \<mapsto> 3]))"
  "race_step (race_at 3 [5, 5] (wr (Spreading {}) [0 \<mapsto> 3, 1 \<mapsto> 7]) (wr Lost [0 \<mapsto> 5, 1 \<mapsto> 3]))
     (race_at 3 [5, 5] (wr Committing [0 \<mapsto> 3, 1 \<mapsto> 7]) (wr Lost [0 \<mapsto> 5, 1 \<mapsto> 3]))"
  "race_step (race_at 3 [5, 5] (wr Committing [0 \<mapsto> 3, 1 \<mapsto> 7]) (wr Lost [0 \<mapsto> 5, 1 \<mapsto> 3]))
     (race_at 5 [5, 5] (wr Won [0 \<mapsto> 3, 1 \<mapsto> 7]) (wr Lost [0 \<mapsto> 5, 1 \<mapsto> 3]))"
  subgoal by (rule step_eq [OF slot_step.spread [where w = False and i = 1 and todo = "{1}"]]; simp add: race_defs)
  subgoal by (rule step_eq [OF slot_step.commit [where w = False]]; simp add: race_defs)
  subgoal by (rule step_eq [OF slot_step.primary [where w = False]]; simp add: race_defs)
  done

definition race_commit :: "bool slots" where
  "race_commit = race_at 3 [5, 5] (wr Committing [0 \<mapsto> 3, 1 \<mapsto> 7]) (wr Lost [0 \<mapsto> 5, 1 \<mapsto> 3])"

definition race_end :: "bool slots" where
  "race_end = race_at 5 [5, 5] (wr Won [0 \<mapsto> 3, 1 \<mapsto> 7]) (wr Lost [0 \<mapsto> 5, 1 \<mapsto> 3])"

lemma race_commit_run: "slot_run 2 3 race_target race_commit"
proof -
  have i: "slots_init 2 3 = race_at 3 [3, 3] (wr Voting Map.empty) (wr Voting Map.empty)"
    by (simp add: slots_init_def race_at_def numeral_2_eq_2 fun_eq_iff del: One_nat_def)
  show ?thesis unfolding i race_commit_def
    by (intro run_cons [OF race_votes(1)] run_cons [OF race_votes(2)] run_cons [OF race_votes(3)]
        run_cons [OF race_votes(4)] run_cons [OF race_decisions(1)] run_cons [OF race_decisions(2)]
        run_cons [OF race_decisions(3)] run_cons [OF race_decisions(4)] run_cons [OF race_writes(1)]
        run_cons [OF race_writes(2)] rtranclp.rtrancl_refl)
qed

lemma race_run: "slot_run 2 3 race_target race_end"
  using race_commit_run race_writes(3) unfolding race_commit_def race_end_def by (rule rtranclp.rtrancl_into_rtrancl)

lemma race_phase:
  "w_phase (s_writers race_end False) = Won" "w_phase (s_writers race_end True) = Lost"
  "s_primary race_end = 5" "s_backups race_end = [5, 5]"
  by (simp_all add: race_end_def race_at_def)

lemma committed_inv:
  assumes inv: "slot_inv n orig target s" and "fair_targets orig target" "s_primary s \<noteq> orig"
  shows "\<exists>!w. w_phase (s_writers s w) = Won \<and> s_primary s = target w \<and> s_backups s = replicate n (target w)"
proof -
  obtain w where w: "w_phase (s_writers s w) = Won" using inv_primary [OF inv assms(3)] by blast
  have "s_backups s = replicate n (target w)"
    using inv_len [OF inv] inv_done [OF inv, of w] w by (intro nth_equalityI) simp_all
  moreover have "s_primary s = target w" by (rule inv_won [OF inv w])
  moreover have "v = w" if "w_phase (s_writers s v) = Won" for v
    using winning_unique [OF inv assms(2), of v w] that w by (simp add: winning_def)
  ultimately show ?thesis using w by blast
qed

text \<open>
  C1. Agreement on a slot. However the verbs of any number of concurrent writers
  interleave, at most one of them is told it won, as long as their slot values differ
  from each other and from the old value.
\<close>

theorem one_winner:
  assumes "slot_run n orig target s" "fair_targets orig target" "0 < n" "winning s u" "winning s w"
  shows "u = w"
  by (rule winning_unique [OF slot_run_inv [OF assms(1-3)] assms(2,4,5)])

theorem one_winner_witness: "winning race_end False \<and> \<not> winning race_end True"
  using one_winner [OF race_run fair_race, of False True] by (auto simp: winning_def race_phase)

text \<open>
  C2. The slot is committed as a whole. Once the primary has changed, it holds the
  value of the one writer whose final swap succeeded, and so do all backups.
\<close>

theorem committed_everywhere:
  assumes "slot_run n orig target s" "fair_targets orig target" "0 < n" "s_primary s \<noteq> orig"
  shows "\<exists>!w. w_phase (s_writers s w) = Won \<and> s_primary s = target w \<and> s_backups s = replicate n (target w)"
  by (rule committed_inv [OF slot_run_inv [OF assms(1-3)] assms(2,4)])

theorem committed_everywhere_witness:
  "\<exists>!w. w_phase (s_writers race_end w) = Won \<and> s_primary race_end = race_target w \<and>
     s_backups race_end = replicate 2 (race_target w)"
  by (rule committed_everywhere [OF race_run fair_race]) (simp_all add: race_phase)



lemma ended_owned:
  assumes inv: "slot_inv n orig target s" and i: "i < n" and ph: "w_phase (s_writers s u) \<noteq> Voting"
  shows "\<exists>v. owns orig s v i"
  using unowned_voting [OF inv i] ph by blast

text \<open>
  C4. Somebody always wins. When every writer has either not started or has come to
  its end, and at least one has, exactly one of them has won, and the primary and all
  backups hold its value.
\<close>

theorem some_writer_wins:
  assumes run: "slot_run n orig target s" and fair: "fair_targets orig target" and n: "0 < n"
    and ended: "\<And>w. w_back (s_writers s w) = Map.empty \<or> w_phase (s_writers s w) \<in> {Won, Overtaken, Lost, Finished}"
    and u: "w_phase (s_writers s u) \<noteq> Voting"
  shows "\<exists>!w. w_phase (s_writers s w) = Won \<and> s_primary s = target w \<and> s_backups s = replicate n (target w)"
proof -
  note inv = slot_run_inv [OF run fair n]
  have "\<forall>i < n. \<exists>v. owns orig s v i" using ended_owned [OF inv _ u] by blast
  then obtain w where w: "elect n orig target s w" using elect_exists [OF n _ inv_single [OF inv]] by blast
  have "0 < share n orig s w" using w n by (auto simp: elect_def)
  then have "w_back (s_writers s w) \<noteq> Map.empty" by (auto simp: share_pos owns_def)
  then have "w_phase (s_writers s w) = Won"
    using ended [of w] inv_lost [OF inv w] inv_overtaken [OF inv, of w] by auto
  then have "s_primary s \<noteq> orig" using inv_won [OF inv] run_free_targets [OF fair] by metis
  then show ?thesis by (rule committed_inv [OF inv fair])
qed

theorem some_writer_wins_witness:
  "\<exists>!w. w_phase (s_writers race_end w) = Won \<and> s_primary race_end = race_target w \<and>
     s_backups race_end = replicate 2 (race_target w)"
proof (rule some_writer_wins [OF race_run fair_race, where u = True])
  show "w_back (s_writers race_end w) = Map.empty \<or>
      w_phase (s_writers race_end w) \<in> {Won, Overtaken, Lost, Finished}" for w
    by (cases w) (simp_all add: race_phase)
qed (simp_all add: race_phase)

end
