(* ===== verification/ClientOps.thy ===== *)
theory ClientOps
  imports Consensus
begin

text \<open>
  The key-value operations of \<open>src/src/client.cc\<close> as the file system calls them: the
  \<open>_sync\<close> phases of search, insert, update and delete and their composition. A phase
  maps the request context, the client and the world to new ones; \<^const>\<open>None\<close> is an
  exit, an access outside an array or through an unset pointer, or a loop that does
  not end.
\<close>

type_synonym req_state = "KVReqCtx \<times> Client \<times> world"

section \<open>Shared steps\<close>

definition prepare_request_step :: "req_state \<Rightarrow> req_state option" where
  "prepare_request_step st = (case st of (ctx, c, w) \<Rightarrow> do {
     ctx \<leftarrow> prepare_request c (w_local w) ctx;
     Some (ctx, c, w) })"

text \<open>Look the key up in the address cache; on a hit the pair is read along with the buckets.\<close>

definition cache_probe :: "KVReqCtx \<Rightarrow> Client \<Rightarrow> (KVReqCtx \<times> Client \<times> IbvSrList list) option" where
  "cache_probe ctx c =
     (if \<not> ctx_use_cache ctx then Some (ctx, c, [])
      else do {
        (e, c) \<leftarrow> check_cache (ctx_key_str ctx) c;
        let ctx = ctx\<lparr>ctx_is_local_cache_hit := (e \<noteq> None)\<rparr>;
        case e of
          None \<Rightarrow> Some (ctx, c, [])
        | Some p \<Rightarrow> do {
            entry \<leftarrow> cl_cache_heap c p;
            srs \<leftarrow> gen_read_cache_kv_sr_lists c (ucast (ctx_coro_id ctx)) (ce_l_slot_ptr entry) (ctx_local_cache_addr ctx);
            Some (ctx\<lparr>ctx_cache_entry := p\<rparr>, c, srs) } })"

text \<open>The pair read from the cached address is valid and has the request's key.\<close>

definition cached_kv_ok :: "mem \<Rightarrow> KVReqCtx \<Rightarrow> bool" where
  "cached_kv_ok m ctx \<longleftrightarrow> ctx_use_cache ctx \<and> ctx_is_local_cache_hit ctx
     \<and> log_is_valid (load_KVLogHeader m (ctx_local_cache_addr ctx))
     \<and> kv_matches m ctx (ctx_local_cache_addr ctx)"

text \<open>Read every pair whose slot has the right fingerprint.\<close>

definition read_kv_sync :: "env \<Rightarrow> req_state \<Rightarrow> req_state option" where
  "read_kv_sync v st = (case st of (ctx, c, w) \<Rightarrow> do {
     ctx \<leftarrow> find_kv_in_buckets c (w_local w) ctx;
     w \<leftarrow> rdma_post_sr_lists_sync v (gen_read_kv_sr_lists (ucast (ctx_coro_id ctx)) (ctx_kv_read_addr_list ctx)) w;
     Some (ctx\<lparr>ctx_is_finished := False\<rparr>, c, w) })"

text \<open>
  The first step of the three writing operations: mark the log record in the input
  buffer, take a subblock for it, and fill in the log links. The boolean is False
  when the allocator had nothing to give.
\<close>

definition stage_log :: "env \<Rightarrow> KVLogOp \<Rightarrow> req_state \<Rightarrow> (bool \<times> req_state) option" where
  "stage_log v op st = (case st of (ctx, c, w) \<Rightarrow> do {
     let l = kvi_l_addr (ctx_kv_info ctx);
     let header = load_KVLogHeader (w_local w) l;
     let tail = l + of_nat KVLogHeader_size + ucast (lh_key_length header) + ucast (lh_value_length header);
     let m = (w_local w)(tail + 25 := KVLogOp_code op);
     let m = m(l := 1);
     let header = load_KVLogHeader m l;
     let kv_block_size = ucast (lh_key_length header) + lh_value_length header
           + of_nat KVLogHeader_size + of_nat KVLogTail_size;
     (ac, mm, w) \<leftarrow> mm_alloc v (cl_nm c) (ucast kv_block_size) (ctx_mm_alloc_ctx ctx) (cl_mm c, w\<lparr>w_local := m\<rparr>);
     let ctx = ctx\<lparr>ctx_mm_alloc_ctx := ac\<rparr>;
     let c = c\<lparr>cl_mm := mm\<rparr>;
     let a = ac_addr_list ac ! 0;
     if a < cl_server_st_addr c \<or> cl_server_st_addr c + cl_server_data_len c \<le> a
     then Some (False, set_ret_code KV_OPS_FAIL_RETURN (ctx\<lparr>ctx_is_finished := True\<rparr>), c, w)
     else do {
       let w = w\<lparr>w_local := update_log_tail tail ac (w_local w)\<rparr>;
       ctx \<leftarrow> prepare_log_commit_addrs c (w_local w) ctx;
       Some (True, ctx, c, w) } })"

text \<open>
  Write the new slot value (given by its bytes) to \<open>local_cas_target_value_addr\<close> and
  set up the swaps of slot \<open>(bucket_idx, slot_idx)\<close> on every index replica. The address
  of the local copy of the slot is returned too.
\<close>

definition stage_cas :: "byte list \<Rightarrow> nat \<Rightarrow> nat \<Rightarrow> req_state \<Rightarrow> (addr \<times> req_state) option" where
  "stage_cas new_slot bucket_idx slot_idx st = (case st of (ctx, c, w) \<Rightarrow> do {
     let t = ctx_local_cas_target_value_addr ctx;
     let w = w\<lparr>w_local := store_bytes t new_slot (w_local w)\<rparr>;
     let (old, remote_slot_addr) = remote_slots (num_idx c) ctx bucket_idx slot_idx;
     ctx \<leftarrow> fill_cas_addr c remote_slot_addr (ConvertSlotToInt (w_local w) old) (ConvertSlotToInt (w_local w) t) ctx;
     Some (old, ctx, c, w) })"

text \<open>The same with the slot the cache remembers.\<close>

definition stage_cas_cached :: "byte list \<Rightarrow> req_state \<Rightarrow> req_state option" where
  "stage_cas_cached new_slot st = (case st of (ctx, c, w) \<Rightarrow> do {
     c \<leftarrow> bump_acc_cnt (ctx_cache_entry ctx) c;
     entry \<leftarrow> cl_cache_heap c (ctx_cache_entry ctx);
     let t = ctx_local_cas_target_value_addr ctx;
     let w = w\<lparr>w_local := store_bytes t new_slot (w_local w)\<rparr>;
     ctx \<leftarrow> fill_cas_addr c (ce_r_slot_addr entry) (of_le_bytes (slot_bytes (ce_l_slot_ptr entry)))
              (ConvertSlotToInt (w_local w) t) ctx;
     ctx \<leftarrow> fill_invalid_addr c (ce_l_slot_ptr entry) ctx;
     Some (ctx\<lparr>ctx_is_cache_hit := True\<rparr>, c, w) })"

text \<open>The first round of swaps, on every backup; one replica needs no agreement.\<close>

definition cas_all_backups :: "env \<Rightarrow> req_state \<Rightarrow> req_state option" where
  "cas_all_backups v st = (case st of (ctx, c, w) \<Rightarrow>
     if cl_num_idx_rep c = 1 then Some (ctx\<lparr>ctx_consensus_state := KV_CONSENSUS_WIN_ALL\<rparr>, c, w)
     else do {
       w \<leftarrow> rdma_post_sr_lists_sync v (gen_cas_sr_lists (ucast (ctx_coro_id ctx)) (ctx_kv_modify_bk_0_cas_list ctx)) w;
       Some (ctx, c, w) })"

text \<open>\<open>*(ctx->should_stop)\<close>.\<close>

definition read_should_stop :: "KVReqCtx \<Rightarrow> world \<Rightarrow> bool option" where
  "read_should_stop ctx w = map_option (\<lambda>f. f w) (ctx_should_stop ctx)"

section \<open>Agreement on the backups\<close>

definition check_cas_consensus_0_sync :: "env \<Rightarrow> req_state \<Rightarrow> req_state option" where
  "check_cas_consensus_0_sync v st = (case st of (ctx, c, w) \<Rightarrow> do {
     b \<leftarrow> nth_opt (ctx_kv_modify_bk_0_cas_list ctx) 0;
     p \<leftarrow> nth_opt (ctx_kv_modify_pr_cas_list ctx) 0;
     let target_value = cas_swap_value b;
     let expected_value = cas_orig_value b;
     if target_value \<noteq> cas_swap_value p \<or> expected_value \<noteq> cas_orig_value p then None
     else do {
       let cas = map (\<lambda>a. (a, load64 (w_local w) (cas_l_kv_addr a))) (ctx_kv_modify_bk_0_cas_list ctx);
       let ctx = ctx\<lparr>ctx_kv_modify_bk_1_cas_list := bk_1_list expected_value target_value cas\<rparr>;
       let vs = map (\<lambda>(_, swap_back). vote expected_value target_value swap_back) cas;
       let tmp_win = tally_decision (unat (cl_num_idx_rep c - 1)) target_value vs;
       if tmp_win \<noteq> KV_CONSENSUS_NON then Some (ctx\<lparr>ctx_consensus_state := tmp_win\<rparr>, c, w)
       else do {
         srs \<leftarrow> gen_read_primary_sr_list ctx;
         w \<leftarrow> rdma_post_sr_lists_sync v srs w;
         let check_val = load64 (w_local w) (cas_l_kv_addr p);
         let tmp_win = primary_decision (cas_orig_value p) check_val target_value vs;
         Some (ctx\<lparr>ctx_consensus_state := tmp_win\<rparr>, c, w) } } })"

text \<open>
  A loser waits until the primary has moved. The read goes to the local address of
  the primary swap, the condition looks at \<open>op_laddr\<close>.
\<close>

partial_function (option) wait_primary_sync :: "env \<Rightarrow> KVReqCtx \<Rightarrow> world \<Rightarrow> world option" where
  [code]: "wait_primary_sync v ctx w = do {
     w \<leftarrow> background v w;
     srs \<leftarrow> gen_read_primary_sr_list ctx;
     w \<leftarrow> rdma_post_sr_lists_sync v srs w;
     p \<leftarrow> nth_opt (ctx_kv_modify_pr_cas_list ctx) 0;
     if load64 (w_local w) (ctx_op_laddr ctx) = cas_orig_value p then wait_primary_sync v ctx w
     else Some w }"

definition write_unused :: "env \<Rightarrow> req_state \<Rightarrow> world option" where
  "write_unused v st = (case st of (ctx, c, w) \<Rightarrow> do {
     srs \<leftarrow> gen_log_commit_sr_lists c (ucast (ctx_coro_id ctx)) [KVLogOp_code KV_OP_FINISH] (ctx_write_unused_addr_list ctx);
     rdma_post_sr_lists_sync_unsignaled v srs w })"

definition modify_backup_idx_consensus_1_sync :: "env \<Rightarrow> req_state \<Rightarrow> req_state option" where
  "modify_backup_idx_consensus_1_sync v st = do {
     (ctx, c, w) \<leftarrow> check_cas_consensus_0_sync v st;
     case ctx_consensus_state ctx of
       KV_CONSENSUS_FINISH \<Rightarrow> do {
         let ctx = set_ret_code KV_OPS_SUCCESS (ctx\<lparr>ctx_is_finished := True\<rparr>);
         w \<leftarrow> write_unused v (ctx, c, w);
         Some (ctx, c, w) }
     | KV_CONSENSUS_FAIL \<Rightarrow> do {
         w \<leftarrow> wait_primary_sync v ctx w;
         w \<leftarrow> write_unused v (ctx, c, w);
         Some (set_ret_code KV_OPS_SUCCESS (ctx\<lparr>ctx_is_finished := True\<rparr>), c, w) }
     | KV_CONSENSUS_WIN_ALL \<Rightarrow> Some (ctx\<lparr>ctx_is_finished := False\<rparr>, c, w)
     | _ \<Rightarrow> do {
         w \<leftarrow> rdma_post_sr_list_batch_sync v
                [gen_cas_sr_lists (ucast (ctx_coro_id ctx)) (ctx_kv_modify_bk_1_cas_list ctx)] w;
         Some (ctx\<lparr>ctx_is_finished := False, ctx_consensus_state := KV_CONSENSUS_WIN_ALL\<rparr>, c, w) } }"

definition kv_log_commit_sync :: "env \<Rightarrow> req_state \<Rightarrow> req_state option" where
  "kv_log_commit_sync v st = (case st of (ctx, c, w) \<Rightarrow> do {
     p \<leftarrow> nth_opt (ctx_kv_modify_pr_cas_list ctx) 0;
     srs \<leftarrow> gen_log_commit_sr_lists c (ucast (ctx_coro_id ctx)) (le_bytes 8 (cas_orig_value p) @ [0xFF])
              (ctx_log_commit_addr_list ctx);
     w \<leftarrow> rdma_post_sr_lists_sync v srs w;
     Some (ctx\<lparr>ctx_is_finished := False\<rparr>, c, w) })"

section \<open>The primary\<close>

definition replaces_kv :: "KVReqCtx \<Rightarrow> bool" where
  "replaces_kv ctx \<longleftrightarrow> ctx_req_type ctx = KV_REQ_UPDATE \<or> ctx_req_type ctx = KV_REQ_DELETE"

text \<open>\<open>mm_free\<close> of the replaced pair, then the address cache follows the new slot.\<close>

definition finish_primary :: "KVReqCtx \<Rightarrow> KVCASAddr \<Rightarrow> Client \<Rightarrow> Client option" where
  "finish_primary ctx p c = do {
     c \<leftarrow> (if replaces_kv ctx then map_option (\<lambda>mm. c\<lparr>cl_mm := mm\<rparr>) (mm_free (cas_orig_value p) (cl_mm c)) else Some c);
     if ctx_use_cache ctx \<and> ctx_req_type ctx \<noteq> KV_REQ_DELETE then
       (if length (ctx_kv_modify_bk_0_cas_list ctx) < num_idx c - 1 then None
        else update_cache (ctx_key_str ctx)
               (let bs = le_bytes 8 (cas_swap_value p) in
                \<lparr>slot_fp = bs ! 0, slot_kv_len = bs ! 1, slot_server_id = bs ! 2, slot_pointer = drop 3 bs\<rparr>)
               (take (num_idx c) (cas_r_kv_addr p # map cas_r_kv_addr (ctx_kv_modify_bk_0_cas_list ctx))) c)
     else if ctx_use_cache ctx \<and> ctx_req_type ctx = KV_REQ_DELETE then Some (remove_cache (ctx_key_str ctx) c)
     else Some c }"

definition modify_primary_idx_sync :: "env \<Rightarrow> req_state \<Rightarrow> req_state option" where
  "modify_primary_idx_sync v st = (case st of (ctx, c, w) \<Rightarrow>
     if ctx_consensus_state ctx = KV_CONSENSUS_FAIL then
       (if ctx_req_type ctx = KV_REQ_INSERT
        then Some (set_ret_code KV_OPS_FAIL_REDO ctx, c\<lparr>cl_mm := mm_free_cur (ctx_mm_alloc_ctx ctx) (cl_mm c)\<rparr>, w)
        else Some (ctx, c, w))
     else do {
       p \<leftarrow> nth_opt (ctx_kv_modify_pr_cas_list ctx) 0;
       let invalid = (if replaces_kv ctx
             then [gen_invalid_sr_lists (ucast (ctx_coro_id ctx)) (ctx_kv_invalid_addr ctx) 0] else []);
       w \<leftarrow> rdma_post_sr_list_batch_sync v
              (gen_cas_sr_lists (ucast (ctx_coro_id ctx)) (ctx_kv_modify_pr_cas_list ctx) # invalid) w;
       if load64 (w_local w) (cas_l_kv_addr p) \<noteq> cas_orig_value p then
         (case ctx_req_type ctx of
            KV_REQ_INSERT \<Rightarrow> Some (set_ret_code KV_OPS_FAIL_REDO (ctx\<lparr>ctx_is_finished := True\<rparr>),
                               c\<lparr>cl_mm := mm_free_cur (ctx_mm_alloc_ctx ctx) (cl_mm c)\<rparr>, w)
          | KV_REQ_UPDATE \<Rightarrow> Some (set_ret_code KV_OPS_SUCCESS (ctx\<lparr>ctx_is_finished := True\<rparr>), c, w)
          | KV_REQ_DELETE \<Rightarrow> Some (set_ret_code KV_OPS_SUCCESS (ctx\<lparr>ctx_is_finished := True\<rparr>), c, w)
          | _ \<Rightarrow> Some (ctx, c, w))
       else do {
         let ctx = set_ret_code KV_OPS_SUCCESS (ctx\<lparr>ctx_is_finished := True\<rparr>);
         c \<leftarrow> finish_primary ctx p c;
         Some (ctx, c, w) } })"

section \<open>Search\<close>

definition kv_search_read_buckets_sync :: "env \<Rightarrow> req_state \<Rightarrow> req_state option" where
  "kv_search_read_buckets_sync v st = (case st of (ctx, c, w) \<Rightarrow> do {
     (ctx, c, read_cache) \<leftarrow> cache_probe ctx c;
     w \<leftarrow> rdma_post_sr_list_batch_sync v [gen_read_bucket_sr_lists ctx, read_cache] w;
     Some (ctx\<lparr>ctx_is_finished := False\<rparr>, c, w) })"

definition kv_search_read_kv_sync :: "env \<Rightarrow> req_state \<Rightarrow> req_state option" where
  "kv_search_read_kv_sync v st = (case st of (ctx, c, w) \<Rightarrow>
     if cached_kv_ok (w_local w) ctx then do {
       let header = load_KVLogHeader (w_local w) (ctx_local_cache_addr ctx);
       c \<leftarrow> bump_acc_cnt (ctx_cache_entry ctx) c;
       Some (ctx\<lparr>ctx_ret_val := ctx_local_cache_addr ctx + of_nat KVLogHeader_size + ucast (lh_key_length header),
                 ctx_is_finished := True\<rparr>, c, w) }
     else read_kv_sync v (ctx, c, w))"

definition kv_search_check_kv :: "req_state \<Rightarrow> req_state option" where
  "kv_search_check_kv st = (case st of (ctx, c, w) \<Rightarrow>
     if ctx_is_finished ctx then Some (ctx, c, w)
     else case find_match_kv_idx (w_local w) ctx of
       None \<Rightarrow> Some (ctx\<lparr>ctx_ret_val := 0, ctx_is_finished := True\<rparr>, c, w)
     | Some match_idx \<Rightarrow> do {
         let l = rw_l_kv_addr (ctx_kv_read_addr_list ctx ! match_idx);
         let header = load_KVLogHeader (w_local w) l;
         let ctx = ctx\<lparr>ctx_ret_val := l + of_nat KVLogHeader_size + ucast (lh_key_length header),
               ctx_is_finished := True\<rparr>;
         if ctx_use_cache ctx then do {
           (bucket_id, slot_id) \<leftarrow> nth_opt (ctx_kv_idx_list ctx) match_idx;
           let ctx = get_local_bucket_info ctx;
           let (old, remote) = remote_slots (num_repl c) ctx bucket_id slot_id;
           c \<leftarrow> update_cache (ctx_key_str ctx) (load_slot (w_local w) old) remote c;
           Some (ctx, c, w) }
         else Some (ctx, c, w) })"

definition kv_search_sync :: "env \<Rightarrow> req_state \<Rightarrow> (64 word \<times> req_state) option" where
  "kv_search_sync v st = do {
     st \<leftarrow> prepare_request_step st;
     st \<leftarrow> kv_search_read_buckets_sync v st;
     st \<leftarrow> kv_search_read_kv_sync v st;
     st \<leftarrow> kv_search_check_kv st;
     Some (ctx_ret_val (fst st), st) }"

section \<open>Insert\<close>

definition kv_insert_read_buckets_and_write_kv_sync :: "env \<Rightarrow> req_state \<Rightarrow> req_state option" where
  "kv_insert_read_buckets_and_write_kv_sync v st = do {
     (ok, ctx, c, w) \<leftarrow> stage_log v KV_OP_INSERT st;
     if \<not> ok then Some (ctx, c, w)
     else do {
       w \<leftarrow> rdma_post_sr_list_batch_sync v
              [gen_write_kv_sr_lists c (ucast (ctx_coro_id ctx)) (ctx_kv_info ctx) (ctx_mm_alloc_ctx ctx),
               gen_read_bucket_sr_lists ctx] w;
       Some (ctx\<lparr>ctx_is_finished := False\<rparr>, c, w) } }"

definition kv_insert_backup_consensus_0_sync :: "env \<Rightarrow> req_state \<Rightarrow> req_state option" where
  "kv_insert_backup_consensus_0_sync v st = (case st of (ctx, c, w) \<Rightarrow>
     if ctx_is_finished ctx then Some (ctx, c, w)
     else do {
       let ctx = find_empty_slot (w_local w) ctx;
       if ctx_bucket_idx ctx = -1 then
         Some (set_ret_code KV_OPS_FAIL_RETURN (ctx\<lparr>ctx_is_finished := True\<rparr>),
               c\<lparr>cl_mm := mm_free_cur (ctx_mm_alloc_ctx ctx) (cl_mm c)\<rparr>, w)
       else do {
         (_, st) \<leftarrow> stage_cas (slot_bytes (fill_slot (ctx_mm_alloc_ctx ctx) (ctx_hash_info ctx)))
                     (nat (ctx_bucket_idx ctx)) (nat (ctx_slot_idx ctx)) (ctx, c, w);
         cas_all_backups v st } })"

text \<open>Both phases look at the flag behind \<open>should_stop\<close> unless the request has finished.\<close>

definition unless_stopped :: "(req_state \<Rightarrow> req_state option) \<Rightarrow> req_state \<Rightarrow> req_state option" where
  "unless_stopped f st = (case st of (ctx, c, w) \<Rightarrow> do {
     stop \<leftarrow> (if ctx_is_finished ctx then Some True else read_should_stop ctx w);
     if stop then Some (ctx\<lparr>ctx_is_finished := True\<rparr>, c, w) else f (ctx, c, w) })"

definition kv_insert_backup_consensus_1_sync :: "env \<Rightarrow> req_state \<Rightarrow> req_state option" where
  "kv_insert_backup_consensus_1_sync v = unless_stopped (modify_backup_idx_consensus_1_sync v)"

definition kv_insert_commit_log_sync :: "env \<Rightarrow> req_state \<Rightarrow> req_state option" where
  "kv_insert_commit_log_sync v = unless_stopped (kv_log_commit_sync v)"

definition kv_insert_cas_primary_sync :: "env \<Rightarrow> req_state \<Rightarrow> req_state option" where
  "kv_insert_cas_primary_sync v st =
     (if ctx_is_finished (fst st) then Some st else modify_primary_idx_sync v st)"

definition kv_insert_sync :: "env \<Rightarrow> req_state \<Rightarrow> (32 word \<times> req_state) option" where
  "kv_insert_sync v st = do {
     st \<leftarrow> prepare_request_step st;
     st \<leftarrow> kv_insert_read_buckets_and_write_kv_sync v st;
     if ctx_is_finished (fst st) then Some (ret_code (fst st), st)
     else do {
       st \<leftarrow> kv_insert_backup_consensus_0_sync v st;
       st \<leftarrow> (if 1 < cl_num_idx_rep (fst (snd st)) then do {
                 st \<leftarrow> kv_insert_backup_consensus_1_sync v st;
                 kv_insert_commit_log_sync v st }
               else Some st);
       st \<leftarrow> kv_insert_cas_primary_sync v st;
       Some (ret_code (fst st), st) } }"

section \<open>Update\<close>

definition kv_update_read_buckets_and_write_kv_sync :: "env \<Rightarrow> req_state \<Rightarrow> req_state option" where
  "kv_update_read_buckets_and_write_kv_sync v st = do {
     (ok, ctx, c, w) \<leftarrow> stage_log v KV_OP_UPDATE st;
     if \<not> ok then Some (ctx, c, w)
     else do {
       (ctx, c, read_cache) \<leftarrow> cache_probe ctx c;
       w \<leftarrow> rdma_post_sr_list_batch_sync v
              [gen_write_kv_sr_lists c (ucast (ctx_coro_id ctx)) (ctx_kv_info ctx) (ctx_mm_alloc_ctx ctx),
               gen_read_bucket_sr_lists ctx, read_cache] w;
       Some (ctx\<lparr>ctx_is_finished := False\<rparr>, c, w) } }"

definition kv_update_read_kv_sync :: "env \<Rightarrow> req_state \<Rightarrow> req_state option" where
  "kv_update_read_kv_sync v st = (case st of (ctx, c, w) \<Rightarrow>
     if cached_kv_ok (w_local w) ctx
     then stage_cas_cached (slot_bytes (fill_slot (ctx_mm_alloc_ctx ctx) (ctx_hash_info ctx))) (ctx, c, w)
     else read_kv_sync v (ctx\<lparr>ctx_is_cache_hit := False\<rparr>, c, w))"

definition kv_update_backup_consensus_0_sync :: "env \<Rightarrow> req_state \<Rightarrow> req_state option" where
  "kv_update_backup_consensus_0_sync v st = (case st of (ctx, c, w) \<Rightarrow>
     if ctx_use_cache ctx \<and> ctx_is_cache_hit ctx then cas_all_backups v (ctx, c, w)
     else case find_match_kv_idx (w_local w) ctx of
       None \<Rightarrow> Some (set_ret_code KV_OPS_FAIL_RETURN (ctx\<lparr>ctx_is_finished := True\<rparr>), c, w)
     | Some match_idx \<Rightarrow> do {
         (bucket_idx, slot_idx) \<leftarrow> nth_opt (ctx_kv_idx_list ctx) match_idx;
         (old, ctx, c, w) \<leftarrow> stage_cas (slot_bytes (fill_slot (ctx_mm_alloc_ctx ctx) (ctx_hash_info ctx)))
                              bucket_idx slot_idx (ctx, c, w);
         ctx \<leftarrow> fill_invalid_addr c (load_slot (w_local w) old) ctx;
         cas_all_backups v (ctx, c, w) })"

definition kv_update_backup_consensus_1_sync :: "env \<Rightarrow> req_state \<Rightarrow> req_state option" where
  "kv_update_backup_consensus_1_sync v st =
     (if ctx_is_finished (fst st) then Some st else modify_backup_idx_consensus_1_sync v st)"

definition kv_update_commit_log_sync :: "env \<Rightarrow> req_state \<Rightarrow> req_state option" where
  "kv_update_commit_log_sync v st = kv_log_commit_sync v st"

definition kv_update_cas_primary_sync :: "env \<Rightarrow> req_state \<Rightarrow> req_state option" where
  "kv_update_cas_primary_sync v st = modify_primary_idx_sync v st"

definition kv_update_sync :: "env \<Rightarrow> req_state \<Rightarrow> (32 word \<times> req_state) option" where
  "kv_update_sync v st = do {
     st \<leftarrow> prepare_request_step st;
     st \<leftarrow> kv_update_read_buckets_and_write_kv_sync v st;
     if ctx_is_finished (fst st) then Some (ret_code (fst st), st)
     else do {
       st \<leftarrow> kv_update_read_kv_sync v st;
       st \<leftarrow> kv_update_backup_consensus_0_sync v st;
       if ctx_is_finished (fst st) then Some (ret_code (fst st), st)
       else do {
         st \<leftarrow> (if 1 < cl_num_idx_rep (fst (snd st)) then do {
                   st \<leftarrow> kv_update_backup_consensus_1_sync v st;
                   kv_update_commit_log_sync v st }
                 else Some st);
         st \<leftarrow> kv_update_cas_primary_sync v st;
         Some (ret_code (fst st), st) } } }"

section \<open>Delete\<close>

definition kv_delete_read_buckets_write_log_sync :: "env \<Rightarrow> req_state \<Rightarrow> req_state option" where
  "kv_delete_read_buckets_write_log_sync v st = do {
     (ok, ctx, c, w) \<leftarrow> stage_log v KV_OP_DELETE st;
     if \<not> ok then Some (ctx, c, w)
     else do {
       (ctx, c, read_cache) \<leftarrow> cache_probe ctx c;
       w \<leftarrow> rdma_post_sr_list_batch_sync v
              [gen_read_bucket_sr_lists ctx,
               gen_write_del_log_sr_lists c (ucast (ctx_coro_id ctx)) (ctx_kv_info ctx) (ctx_mm_alloc_ctx ctx),
               read_cache] w;
       Some (ctx\<lparr>ctx_is_finished := False\<rparr>, c, w) } }"

definition kv_delete_read_kv_sync :: "env \<Rightarrow> req_state \<Rightarrow> req_state option" where
  "kv_delete_read_kv_sync v st = (case st of (ctx, c, w) \<Rightarrow>
     if cached_kv_ok (w_local w) ctx then stage_cas_cached (replicate RaceHashSlot_size 0) (ctx, c, w)
     else read_kv_sync v (ctx\<lparr>ctx_is_cache_hit := False\<rparr>, c, w))"

definition kv_delete_backup_consensus_0_sync :: "env \<Rightarrow> req_state \<Rightarrow> req_state option" where
  "kv_delete_backup_consensus_0_sync v st = (case st of (ctx, c, w) \<Rightarrow>
     if ctx_use_cache ctx \<and> ctx_is_cache_hit ctx then cas_all_backups v (ctx, c, w)
     else case find_match_kv_idx (w_local w) ctx of
       None \<Rightarrow> Some (set_ret_code KV_OPS_SUCCESS (ctx\<lparr>ctx_is_finished := True\<rparr>), c, w)
     | Some match_idx \<Rightarrow> do {
         (bucket_idx, slot_idx) \<leftarrow> nth_opt (ctx_kv_idx_list ctx) match_idx;
         (old, ctx, c, w) \<leftarrow> stage_cas (replicate RaceHashSlot_size 0) bucket_idx slot_idx (ctx, c, w);
         ctx \<leftarrow> fill_invalid_addr c (load_slot (w_local w) old) ctx;
         cas_all_backups v (ctx, c, w) })"

definition kv_delete_backup_consensus_1_sync :: "env \<Rightarrow> req_state \<Rightarrow> req_state option" where
  "kv_delete_backup_consensus_1_sync v st = modify_backup_idx_consensus_1_sync v st"

definition kv_delete_commit_log_sync :: "env \<Rightarrow> req_state \<Rightarrow> req_state option" where
  "kv_delete_commit_log_sync v st = kv_log_commit_sync v st"

definition kv_delete_cas_primary_sync :: "env \<Rightarrow> req_state \<Rightarrow> req_state option" where
  "kv_delete_cas_primary_sync v st = modify_primary_idx_sync v st"

definition kv_delete_sync :: "env \<Rightarrow> req_state \<Rightarrow> (32 word \<times> req_state) option" where
  "kv_delete_sync v st = do {
     st \<leftarrow> prepare_request_step st;
     st \<leftarrow> kv_delete_read_buckets_write_log_sync v st;
     st \<leftarrow> kv_delete_read_kv_sync v st;
     if ctx_is_finished (fst st) then Some (ret_code (fst st), st)
     else do {
       st \<leftarrow> kv_delete_backup_consensus_0_sync v st;
       if ctx_is_finished (fst st) then Some (ret_code (fst st), st)
       else do {
         st \<leftarrow> (if 1 < cl_num_idx_rep (fst (snd st)) then do {
                   st \<leftarrow> kv_delete_backup_consensus_1_sync v st;
                   kv_delete_commit_log_sync v st }
                 else Some st);
         st \<leftarrow> kv_delete_cas_primary_sync v st;
         Some (ret_code (fst st), st) } } }"

section \<open>Request contexts\<close>

definition vec_resize :: "nat \<Rightarrow> 'a \<Rightarrow> 'a list \<Rightarrow> 'a list" where
  "vec_resize n d xs = take n xs @ replicate (n - length xs) d"

text \<open>The key is copied to a buffer of 128 characters that has to end with a zero.\<close>

definition init_kv_req_ctx :: "Client \<Rightarrow> mem \<Rightarrow> KVInfo \<Rightarrow> string \<Rightarrow> KVReqCtx \<Rightarrow> KVReqCtx option" where
  "init_kv_req_ctx c m kv operation ctx =
     (let cas0 = \<lparr>cas_server_id = 0, cas_r_kv_addr = 0, cas_l_kv_addr = 0, cas_rkey = 0, cas_lkey = 0,
                  cas_orig_value = 0, cas_swap_value = 0\<rparr>;
          rw0 = \<lparr>rw_server_id = 0, rw_r_kv_addr = 0, rw_l_kv_addr = 0, rw_rkey = 0, rw_lkey = 0, rw_length = 0\<rparr>
      in if 128 \<le> unat (kvi_key_len kv) then None
         else Some (ctx\<lparr>ctx_kv_info := kv, ctx_lkey := cl_local_buf_lkey c,
           ctx_kv_modify_pr_cas_list := vec_resize 1 cas0 (ctx_kv_modify_pr_cas_list ctx),
           ctx_kv_modify_bk_0_cas_list := vec_resize (unat (cl_num_idx_rep c - 1)) cas0 (ctx_kv_modify_bk_0_cas_list ctx),
           ctx_kv_modify_bk_1_cas_list := vec_resize (unat (cl_num_idx_rep c - 1)) cas0 (ctx_kv_modify_bk_1_cas_list ctx),
           ctx_log_commit_addr_list := vec_resize (num_repl c) rw0 (ctx_log_commit_addr_list ctx),
           ctx_write_unused_addr_list := vec_resize (num_repl c) rw0 (ctx_write_unused_addr_list ctx),
           ctx_key_str := takeWhile (\<lambda>b. b \<noteq> 0)
             (load_bytes (unat (kvi_key_len kv)) m (kvi_l_addr kv + of_nat KVLogHeader_size)),
           ctx_req_type := (if operation = ''INSERT'' then KV_REQ_INSERT
             else if operation = ''DELETE'' then KV_REQ_DELETE
             else if operation = ''UPDATE'' then KV_REQ_UPDATE else KV_REQ_SEARCH)\<rparr>))"

definition init_kv_insert_space :: "Client \<Rightarrow> addr \<Rightarrow> KVReqCtx \<Rightarrow> KVReqCtx" where
  "init_kv_insert_space c a ctx =
     (let t = a + of_nat (4 * RaceHashBucket_size); r = t + 8
      in ctx\<lparr>ctx_use_cache := True, ctx_local_bucket_addr := a, ctx_local_cas_target_value_addr := t,
             ctx_local_cas_return_value_addr := r, ctx_op_laddr := r + of_nat (8 * num_repl c)\<rparr>)"

definition init_kv_search_space :: "Client \<Rightarrow> addr \<Rightarrow> KVReqCtx \<Rightarrow> KVReqCtx" where
  "init_kv_search_space c a ctx =
     (let k = a + of_nat (4 * RaceHashBucket_size * num_repl c)
      in ctx\<lparr>ctx_use_cache := True, ctx_local_bucket_addr := a, ctx_local_cache_addr := k, ctx_local_kv_addr := k\<rparr>)"

definition init_kv_update_space :: "Client \<Rightarrow> addr \<Rightarrow> KVReqCtx \<Rightarrow> KVReqCtx" where
  "init_kv_update_space c a ctx =
     (let t = a + of_nat (16 * RaceHashBucket_size); r = t + 8; l = r + of_nat (8 * num_repl c)
      in ctx\<lparr>ctx_use_cache := True, ctx_local_bucket_addr := a, ctx_local_kv_addr := t,
             ctx_local_cas_target_value_addr := t, ctx_local_cas_return_value_addr := r,
             ctx_op_laddr := l, ctx_local_cache_addr := l + 2048\<rparr>)"

definition init_kv_delete_space :: "Client \<Rightarrow> addr \<Rightarrow> KVReqCtx \<Rightarrow> KVReqCtx" where
  "init_kv_delete_space c a ctx =
     (let t = a + of_nat (4 * RaceHashBucket_size); r = t + 8
      in ctx\<lparr>ctx_use_cache := True, ctx_local_bucket_addr := a, ctx_local_cache_addr := t, ctx_local_kv_addr := t,
             ctx_local_cas_target_value_addr := t, ctx_local_cas_return_value_addr := r,
             ctx_op_laddr := r + of_nat (8 * num_repl c)\<rparr>)"

text \<open>One request of the list: the coroutine's buffer is divided up by request type.\<close>

definition init_kvreq_space :: "Client \<Rightarrow> 32 word \<Rightarrow> KVReqCtx \<Rightarrow> KVReqCtx option" where
  "init_kvreq_space c coro_id ctx = do {
     a \<leftarrow> nth_opt (cl_coro_local_addr_list c) (unat coro_id);
     let ctx = ctx\<lparr>ctx_coro_id := ucast coro_id\<rparr>;
     Some (case ctx_req_type ctx of
         KV_REQ_INSERT \<Rightarrow> init_kv_insert_space c a ctx
       | KV_REQ_SEARCH \<Rightarrow> init_kv_search_space c a ctx
       | KV_REQ_UPDATE \<Rightarrow> init_kv_update_space c a ctx
       | KV_REQ_DELETE \<Rightarrow> init_kv_delete_space c a ctx
       | _ \<Rightarrow> init_kv_search_space c a (ctx\<lparr>ctx_req_type := KV_REQ_SEARCH\<rparr>)) }"

end
