(* ===== verification/FsCommon.thy ===== *)
theory FsCommon
  imports KvUtils
begin

text \<open>
  \<open>src/fs/common\<close>: paths (\<open>path.cc\<close>), inodes (\<open>type.h\<close>) and permission checks
  (\<open>meta.cc\<close>). A path is a string; the loops over it are those of the code.
\<close>

section \<open>Paths\<close>

abbreviation slash :: char where "slash \<equiv> CHR ''/''"

text \<open>\<open>std::getline(ss_path, comp, '/')\<close> until the stream ends; empty components are dropped.\<close>

function SplitPath :: "string \<Rightarrow> string list" where
  "SplitPath path =
     (if path = [] then []
      else let comp = takeWhile (\<lambda>x. x \<noteq> slash) path;
               rest = drop (length comp + 1) path
           in if comp \<noteq> [] then comp # SplitPath rest else SplitPath rest)"
  by pat_completeness auto
termination
  by (relation "measure length") auto

declare SplitPath.simps [simp del]

definition SeparateLastComponent :: "string \<Rightarrow> string \<times> string" where
  "SeparateLastComponent path =
     (if path = [] then ([], [])
      else if slash \<notin> set path then ([], path)
      else let last_component = rev (takeWhile (\<lambda>x. x \<noteq> slash) (rev path));
               pos = length path - length last_component - 1
           in (take pos path, drop (pos + 1) path))"

text \<open>The erasing loop of \<open>FormatPath\<close>, with its index.\<close>

function erase_slashes :: "string \<Rightarrow> nat \<Rightarrow> string" where
  "erase_slashes s i =
     (if i < length s then
        (if s ! i = slash \<and> s ! (i - 1) = slash then erase_slashes (take i s @ drop (i + 1) s) i
         else erase_slashes s (i + 1))
      else s)"
  by pat_completeness auto
termination
  by (relation "measure (\<lambda>(s, i). length s - i)") auto

declare erase_slashes.simps [simp del]

definition FormatPath :: "string \<Rightarrow> string" where
  "FormatPath path =
     (if path = [] then path
      else let p = (if hd path \<noteq> slash then slash # path else path);
               p = (if last p = slash then butlast p else p)
           in erase_slashes p 1)"

section \<open>Inodes\<close>

record Inode =
  ino_id :: "64 word"
  ino_size :: "64 word"
  ino_atime :: "64 word"
  ino_mtime :: "64 word"
  ino_ctime :: "64 word"
  ino_children :: "64 word"
  ino_mode :: "32 word"
  ino_uid :: "32 word"
  ino_gid :: "32 word"

definition Inode_size :: nat where "Inode_size = 60"

definition Inode_bytes :: "Inode \<Rightarrow> byte list" where
  "Inode_bytes i = le_bytes 8 (ino_id i) @ le_bytes 8 (ino_size i) @ le_bytes 8 (ino_atime i)
     @ le_bytes 8 (ino_mtime i) @ le_bytes 8 (ino_ctime i) @ le_bytes 8 (ino_children i)
     @ le_bytes 4 (ino_mode i) @ le_bytes 4 (ino_uid i) @ le_bytes 4 (ino_gid i)"

definition Inode_of_bytes :: "byte list \<Rightarrow> Inode" where
  "Inode_of_bytes bs = \<lparr>ino_id = of_le_bytes (take 8 bs), ino_size = of_le_bytes (take 8 (drop 8 bs)),
     ino_atime = of_le_bytes (take 8 (drop 16 bs)), ino_mtime = of_le_bytes (take 8 (drop 24 bs)),
     ino_ctime = of_le_bytes (take 8 (drop 32 bs)), ino_children = of_le_bytes (take 8 (drop 40 bs)),
     ino_mode = of_le_bytes (take 4 (drop 48 bs)), ino_uid = of_le_bytes (take 4 (drop 52 bs)),
     ino_gid = of_le_bytes (take 4 (drop 56 bs))\<rparr>"

definition kInodeIdGroupSize :: "64 word" where "kInodeIdGroupSize = 1024 * 1024"
definition kRootInodeId :: "64 word" where "kRootInodeId = 0"

abbreviation S_IFMT :: "32 word" where "S_IFMT \<equiv> 0xF000"
abbreviation S_IFDIR :: "32 word" where "S_IFDIR \<equiv> 0x4000"
abbreviation S_IFREG :: "32 word" where "S_IFREG \<equiv> 0x8000"

definition IsFile :: "32 word \<Rightarrow> bool" where
  "IsFile mode \<longleftrightarrow> mode AND S_IFMT = S_IFREG"

definition IsDir :: "32 word \<Rightarrow> bool" where
  "IsDir mode \<longleftrightarrow> mode AND S_IFMT = S_IFDIR"

definition CheckReadPermission :: "Inode \<Rightarrow> 32 word \<Rightarrow> 32 word \<Rightarrow> bool" where
  "CheckReadPermission inode uid gid =
     (if uid = 0 then True
      else if uid = ino_uid inode then ino_mode inode AND 0x100 \<noteq> 0
      else if gid = ino_gid inode then ino_mode inode AND 0x20 \<noteq> 0
      else ino_mode inode AND 0x4 \<noteq> 0)"

definition CheckWritePermission :: "Inode \<Rightarrow> 32 word \<Rightarrow> 32 word \<Rightarrow> bool" where
  "CheckWritePermission inode uid gid =
     (if uid = 0 then True
      else if uid = ino_uid inode then ino_mode inode AND 0x80 \<noteq> 0
      else if gid = ino_gid inode then ino_mode inode AND 0x10 \<noteq> 0
      else ino_mode inode AND 0x2 \<noteq> 0)"

section \<open>Properties\<close>

subsection \<open>Splitting\<close>

lemma SplitPath_Nil [simp]: "SplitPath [] = []"
  by (simp add: SplitPath.simps)

lemma SplitPath_slash [simp]: "SplitPath (slash # p) = SplitPath p"
  by (subst SplitPath.simps) simp

lemma SplitPath_component:
  "slash \<notin> set n \<Longrightarrow> n \<noteq> [] \<Longrightarrow> SplitPath n = [n]"
proof -
  assume n: "slash \<notin> set n" "n \<noteq> []"
  then have t: "takeWhile (\<lambda>x. x \<noteq> slash) n = n" by (auto simp: takeWhile_eq_all_conv)
  show ?thesis by (subst SplitPath.simps) (simp only: t Let_def, simp add: n)
qed

lemma SplitPath_append: "SplitPath (p @ slash # q) = SplitPath p @ SplitPath q"
proof (induction p rule: SplitPath.induct)
  case (1 p)
  show ?case
  proof (cases "slash \<in> set p")
    case True
    define c where "c = takeWhile (\<lambda>x. x \<noteq> slash) p"
    define r where "r = drop (length c + 1) p"
    have c: "takeWhile (\<lambda>x. x \<noteq> slash) (p @ slash # q) = c"
      using True by (simp add: c_def takeWhile_append1)
    have "dropWhile (\<lambda>x. x \<noteq> slash) p \<noteq> []" using True by (simp add: dropWhile_eq_Nil_conv)
    moreover have "length c + length (dropWhile (\<lambda>x. x \<noteq> slash) p) = length p"
      unfolding c_def by (metis length_append takeWhile_dropWhile_id)
    ultimately have "length c < length p"
      by (metis length_greater_0_conv less_add_same_cancel1)
    then have r: "drop (length c + 1) (p @ slash # q) = r @ slash # q" by (simp add: r_def)
    have IH: "SplitPath (r @ slash # q) = SplitPath r @ SplitPath q"
    proof -
      have "p \<noteq> []" using True by auto
      then show ?thesis using 1 [OF _ c_def r_def] by (cases "c = []") blast+
    qed
    have "SplitPath (p @ slash # q) = (if c \<noteq> [] then c # SplitPath (r @ slash # q) else SplitPath (r @ slash # q))"
      by (subst SplitPath.simps) (simp only: c r Let_def, simp)
    moreover have "SplitPath p = (if c \<noteq> [] then c # SplitPath r else SplitPath r)"
      using True by (subst SplitPath.simps) (auto simp: c_def r_def Let_def)
    ultimately show ?thesis using IH by simp
  next
    case False
    then have t: "takeWhile (\<lambda>x. x \<noteq> slash) (p @ slash # q) = p"
      by (subst takeWhile_append2) auto
    have "SplitPath (p @ slash # q) = (if p \<noteq> [] then p # SplitPath q else SplitPath q)"
      by (subst SplitPath.simps) (simp add: t Let_def)
    then show ?thesis using False by (cases "p = []") (simp_all add: SplitPath_component)
  qed
qed

lemma SplitPath_snoc_slash [simp]: "SplitPath (p @ [slash]) = SplitPath p"
  using SplitPath_append [of p "[]"] by simp

lemma SplitPath_double_slash: "SplitPath (p @ slash # slash # q) = SplitPath (p @ slash # q)"
  by (simp add: SplitPath_append)

subsection \<open>Formatting\<close>

lemma erase_slashes_split:
  "0 < i \<Longrightarrow> SplitPath (erase_slashes s i) = SplitPath s"
proof (induction s i rule: erase_slashes.induct)
  case (1 s i)
  show ?case
  proof (cases "i < length s \<and> s ! i = slash \<and> s ! (i - 1) = slash")
    case True
    let ?p = "take (i - 1) s" and ?q = "drop (i + 1) s"
    have "take i s = ?p @ [slash]"
      using True 1(3) take_Suc_conv_app_nth [of "i - 1" s] less_imp_diff_less [of i "length s" 1] by simp
    moreover have "s = take i s @ slash # ?q"
      using True id_take_nth_drop [of i s] by simp
    ultimately have "s = ?p @ slash # slash # ?q" "take i s @ ?q = ?p @ slash # ?q" by simp_all
    then have "SplitPath (take i s @ ?q) = SplitPath s" by (metis SplitPath_double_slash)
    then show ?thesis using 1 True by (subst erase_slashes.simps) simp
  next
    case False
    then show ?thesis using 1 by (subst erase_slashes.simps) auto
  qed
qed

text \<open>Formatting a path does not change the names on it.\<close>

lemma SplitPath_FormatPath: "SplitPath (FormatPath path) = SplitPath path"
proof (cases "path = []")
  case False
  define p where "p = (if hd path \<noteq> slash then slash # path else path)"
  have "SplitPath p = SplitPath path" by (simp add: p_def)
  moreover have "p \<noteq> []" using False by (simp add: p_def)
  then have "SplitPath (if last p = slash then butlast p else p) = SplitPath p"
    by (metis SplitPath_snoc_slash append_butlast_last_id)
  ultimately show ?thesis
    using False by (simp add: FormatPath_def Let_def p_def [symmetric] erase_slashes_split)
qed (simp add: FormatPath_def)

text \<open>No two neighbours below position \<open>i\<close> are both slashes.\<close>

definition single_upto :: "string \<Rightarrow> nat \<Rightarrow> bool" where
  "single_upto s i \<longleftrightarrow> (\<forall>j. 0 < j \<and> j < i \<and> j < length s \<longrightarrow> \<not> (s ! j = slash \<and> s ! (j - 1) = slash))"

lemma erase_slashes_single:
  "0 < i \<Longrightarrow> single_upto s i \<Longrightarrow> single_upto (erase_slashes s i) (length (erase_slashes s i))"
proof (induction s i rule: erase_slashes.induct)
  case (1 s i)
  show ?case
  proof (cases "i < length s")
    case True
    show ?thesis
    proof (cases "s ! i = slash \<and> s ! (i - 1) = slash")
      case e: True
      have "single_upto (take i s @ drop (i + 1) s) i"
        using 1(4) True by (auto simp: single_upto_def nth_append)
      then show ?thesis using 1 True e by (subst (1 2) erase_slashes.simps) simp
    next
      case False
      have "single_upto s (i + 1)"
        using 1(4) False by (auto simp: single_upto_def less_Suc_eq)
      then show ?thesis using 1 True False by (subst (1 2) erase_slashes.simps) auto
    qed
  next
    case False
    then show ?thesis using 1(4) by (subst (1 2) erase_slashes.simps) (auto simp: single_upto_def)
  qed
qed

lemma FormatPath_single: "single_upto (FormatPath path) (length (FormatPath path))"
  by (auto simp: FormatPath_def Let_def single_upto_def [of _ 1] intro!: erase_slashes_single)
     (auto simp: single_upto_def)

lemma erase_slashes_ends:
  "0 < i \<Longrightarrow> s \<noteq> [] \<Longrightarrow>
   erase_slashes s i \<noteq> [] \<and> hd (erase_slashes s i) = hd s \<and> (last (erase_slashes s i) = slash \<longleftrightarrow> last s = slash)"
proof (induction s i rule: erase_slashes.induct)
  case (1 s i)
  show ?case
  proof (cases "i < length s \<and> s ! i = slash \<and> s ! (i - 1) = slash")
    case True
    let ?s = "take i s @ drop (i + 1) s"
    have "hd ?s = hd s" using 1(3,4) by (simp add: hd_append)
    moreover have "last ?s = slash \<longleftrightarrow> last s = slash"
    proof (cases "i = length s - 1")
      case e: True
      have "take i s = take (i - 1) s @ [s ! (i - 1)]"
        using True 1(3) take_Suc_conv_app_nth [of "i - 1" s] less_imp_diff_less [of i "length s" 1] by simp
      moreover have "drop (i + 1) s = []" using e by simp
      ultimately have "last ?s = s ! (i - 1)" by simp
      then show ?thesis using True e 1(4) by (simp add: last_conv_nth)
    next
      case False
      then have "drop (i + 1) s \<noteq> []" using True by auto
      then show ?thesis by (simp add: last_append)
    qed
    moreover have "?s \<noteq> []" using True 1(3) by auto
    ultimately show ?thesis using 1(1) [OF _ _ 1(3)] True by (subst (1 2 3) erase_slashes.simps) auto
  next
    case False
    then show ?thesis using 1 by (subst (1 2 3) erase_slashes.simps) auto
  qed
qed

lemma SeparateLastComponent_split:
  assumes "slash \<in> set p" "SeparateLastComponent p = (d, n)"
  shows "p = d @ slash # n" "slash \<notin> set n"
proof -
  define l where "l = rev (takeWhile (\<lambda>x. x \<noteq> slash) (rev p))"
  define dr where "dr = dropWhile (\<lambda>x. x \<noteq> slash) (rev p)"
  have "dr \<noteq> []" using assms(1) by (auto simp: dr_def dropWhile_eq_Nil_conv)
  moreover from this have "hd dr = slash"
    using hd_dropWhile [of "\<lambda>x. x \<noteq> slash" "rev p"] unfolding dr_def by blast
  ultimately obtain e where e: "dr = slash # e" by (cases dr) auto
  have "rev p = rev l @ dr" by (simp add: l_def dr_def)
  from arg_cong [OF this, of rev] have p': "p = rev e @ slash # l" by (simp add: e)
  have pos: "length p - length l - 1 = length e" by (simp add: p')
  have "p \<noteq> []" using assms(1) by auto
  then have "(d, n) = (take (length e) p, drop (length e + 1) p)"
    using assms pos unfolding SeparateLastComponent_def l_def [symmetric] by (simp add: Let_def)
  then have "d = rev e" "n = l" by (simp_all add: p')
  moreover have "slash \<notin> set l" by (auto simp: l_def dest: set_takeWhileD)
  ultimately show "p = d @ slash # n" "slash \<notin> set n" using p' by simp_all
qed

lemma FormatPath_shape:
  assumes "path \<noteq> []"
  shows "FormatPath path = [] \<longleftrightarrow> path = [slash]"
    and "FormatPath path \<noteq> [] \<Longrightarrow> hd (FormatPath path) = slash"
    and "FormatPath path \<noteq> [] \<Longrightarrow> last (FormatPath path) = slash \<longleftrightarrow> (\<exists>q. path = q @ [slash, slash])"
proof -
  define p where "p = (if hd path \<noteq> slash then slash # path else path)"
  define q where "q = (if last p = slash then butlast p else p)"
  have F: "FormatPath path = erase_slashes q 1"
    using assms by (simp add: FormatPath_def Let_def p_def q_def)
  have p: "p \<noteq> []" "hd p = slash" using assms by (simp_all add: p_def)
  have E: "erase_slashes [] 1 = []" by (simp add: erase_slashes.simps)
  have lp: "last p = last path" using assms by (simp add: p_def)
  have qN: "q = [] \<longleftrightarrow> path = [slash]"
  proof
    assume "q = []"
    then have "p = [slash]" using p by (cases p rule: rev_cases) (auto simp: q_def split: if_splits)
    then show "path = [slash]" using assms by (auto simp: p_def split: if_splits)
  qed (simp add: q_def p_def)
  then show "FormatPath path = [] \<longleftrightarrow> path = [slash]"
    using F E erase_slashes_ends [of 1 q] by auto
  show "hd (FormatPath path) = slash" if "FormatPath path \<noteq> []"
  proof -
    have q: "q \<noteq> []" using that F E by auto
    then have "hd q = slash"
      using p by (cases p rule: rev_cases) (auto simp: q_def hd_append split: if_splits)
    then show ?thesis using F erase_slashes_ends [of 1 q] q by simp
  qed
  show "last (FormatPath path) = slash \<longleftrightarrow> (\<exists>q. path = q @ [slash, slash])" if "FormatPath path \<noteq> []"
  proof -
    have q: "q \<noteq> []" using that F E by auto
    have "last q = slash \<longleftrightarrow> (\<exists>q. path = q @ [slash, slash])"
    proof (cases "last path = slash")
      case True
      then obtain r where r: "path = r @ [slash]" using assms by (metis append_butlast_last_id)
      then have "q = butlast p" using True lp by (simp add: q_def)
      show ?thesis
      proof (cases "r = []")
        case True
        then show ?thesis using r q qN by simp
      next
        case False
        then have "last q = last r" using \<open>q = butlast p\<close> r by (simp add: p_def butlast_append)
        then show ?thesis using r False by (metis append.assoc append_Cons append_Nil append_butlast_last_id
            butlast_snoc last_snoc)
      qed
    next
      case False
      then have "last q \<noteq> slash" using lp by (simp add: q_def)
      moreover have "\<nexists>q. path = q @ [slash, slash]" using False by auto
      ultimately show ?thesis by simp
    qed
    then show ?thesis using F erase_slashes_ends [of 1 q] q by simp
  qed
qed

text \<open>
  Cutting the last component off a formatted path splits its list of names, and the
  component is empty only for the root and for paths that end with two slashes.
\<close>

lemma SeparateLast_FormatPath:
  assumes "SeparateLastComponent (FormatPath path) = (d, n)"
  shows "SplitPath path = SplitPath d @ (if n = [] then [] else [n])"
    and "slash \<notin> set n"
    and "n = [] \<longleftrightarrow> path = [] \<or> path = [slash] \<or> (\<exists>q. path = q @ [slash, slash])"
proof -
  have "SplitPath path = SplitPath d @ (if n = [] then [] else [n]) \<and> slash \<notin> set n
    \<and> (n = [] \<longleftrightarrow> path = [] \<or> path = [slash] \<or> (\<exists>q. path = q @ [slash, slash]))"
  proof (cases "FormatPath path = []")
    case True
    then have "path = [] \<or> path = [slash]" using FormatPath_shape(1) [of path] by blast
    moreover have "d = []" "n = []" using assms True by (simp_all add: SeparateLastComponent_def)
    ultimately show ?thesis by (elim disjE) simp_all
  next
    case False
    then have ne: "path \<noteq> []" by (auto simp: FormatPath_def)
    have ns: "path \<noteq> [slash]" using False FormatPath_shape(1) [OF ne] by simp
    have "hd (FormatPath path) = slash" by (rule FormatPath_shape(2) [OF ne False])
    then have "slash \<in> set (FormatPath path)" using False hd_in_set [of "FormatPath path"] by simp
    note s = SeparateLastComponent_split [OF this assms]
    have split: "SplitPath path = SplitPath d @ SplitPath n"
      using SplitPath_FormatPath [of path] SplitPath_append [of d n] by (simp add: s(1))
    note l = FormatPath_shape(3) [OF ne False, unfolded s(1)]
    show ?thesis
    proof (cases "n = []")
      case True
      then show ?thesis using split l ne ns by simp
    next
      case n: False
      then have "last n \<noteq> slash" using s(2) last_in_set [OF n] by metis
      then have "\<nexists>q. path = q @ [slash, slash]" using l n by simp
      then show ?thesis using split s(2) ne ns n by (simp add: SplitPath_component)
    qed
  qed
  then show "SplitPath path = SplitPath d @ (if n = [] then [] else [n])" "slash \<notin> set n"
    "n = [] \<longleftrightarrow> path = [] \<or> path = [slash] \<or> (\<exists>q. path = q @ [slash, slash])" by simp_all
qed

subsection \<open>Inodes as values\<close>

lemma length_Inode_bytes [simp]: "length (Inode_bytes i) = Inode_size"
  by (simp add: Inode_bytes_def Inode_size_def)

lemma Inode_of_bytes_bytes: "Inode_of_bytes (Inode_bytes i) = i"
  by (simp add: Inode_of_bytes_def Inode_bytes_def of_le_bytes_le_bytes)

section \<open>Claims\<close>

text \<open>
  C28. \<open>FormatPath\<close> changes how a path is spelled and not where it
  leads: the components are the same, and no two slashes in a row are left.
\<close>

theorem format_keeps_components:
  "SplitPath (FormatPath path) = SplitPath path \<and>
   (\<forall>i. Suc i < length (FormatPath path) \<longrightarrow> \<not> (FormatPath path ! i = slash \<and> FormatPath path ! Suc i = slash))"
  using SplitPath_FormatPath FormatPath_single [of path] by (auto simp: single_upto_def)

theorem format_keeps_components_witness:
  "SplitPath (FormatPath ''a//b'') = SplitPath ''a//b''"
  using format_keeps_components [of "''a//b''"] by blast

text \<open>
  C29. Splitting off the last component of a formatted path gives the
  parent and a name without slashes; the name is empty for the root and, against the
  intention, for a path that ends in two slashes.
\<close>

theorem last_component:
  assumes "SeparateLastComponent (FormatPath path) = (d, n)"
  shows "SplitPath path = SplitPath d @ (if n = [] then [] else [n]) \<and> slash \<notin> set n \<and>
    (n = [] \<longleftrightarrow> path = [] \<or> path = [slash] \<or> (\<exists>q. path = q @ [slash, slash]))"
  using SeparateLast_FormatPath [OF assms] by blast

theorem last_component_witness:
  "\<exists>d n. SeparateLastComponent (FormatPath ''/a/b'') = (d, n) \<and> SplitPath ''/a/b'' = SplitPath d @ [n]"
proof -
  obtain d n where s: "SeparateLastComponent (FormatPath ''/a/b'') = (d, n)" by fastforce
  have "n \<noteq> []" using last_component [OF s] by auto
  then show ?thesis using s last_component [OF s] by auto
qed


end
