(* ===== verification/Central.thy ===== *)
theory Central
  imports FsCommon BlockPool
begin

text \<open>
  \<open>src/fs/central/central.cc\<close>: the lock server and the source of inode number groups.
  eRPC is outside the sources; its event loop calls one handler at a time, so a
  handler is a function from the request and the server's state to the reply and the
  new state.
\<close>

datatype CentralErpcType = kLock | kUnlock | kGetInodeIdGroup

record Central =
  ct_lock_set :: "64 word set"
  ct_inode_id_group_seq :: "64 word"
  ct_end :: bool

text \<open>The constructor leaves \<open>inode_id_group_seq_\<close> as it finds it.\<close>

definition Central_new :: "64 word \<Rightarrow> Central" where
  "Central_new uninit = \<lparr>ct_lock_set = {}, ct_inode_id_group_seq = uninit, ct_end = False\<rparr>"

definition LockHandler :: "64 word \<Rightarrow> Central \<Rightarrow> byte \<times> Central" where
  "LockHandler ino c =
     (if ino \<in> ct_lock_set c then (1, c) else (0, c\<lparr>ct_lock_set := insert ino (ct_lock_set c)\<rparr>))"

definition UnlockHandler :: "64 word \<Rightarrow> Central \<Rightarrow> byte \<times> Central" where
  "UnlockHandler ino c = (0, c\<lparr>ct_lock_set := ct_lock_set c - {ino}\<rparr>)"

definition GetInodeIdGroupHandler :: "Central \<Rightarrow> 64 word \<times> Central" where
  "GetInodeIdGroupHandler c =
     (ct_inode_id_group_seq c, c\<lparr>ct_inode_id_group_seq := ct_inode_id_group_seq c + 1\<rparr>)"

text \<open>The requests the constructor registers; the third kind has no handler.\<close>

fun central_handle :: "CentralErpcType \<Rightarrow> 64 word \<Rightarrow> Central \<Rightarrow> (byte \<times> Central) option" where
  "central_handle kLock ino c = Some (LockHandler ino c)"
| "central_handle kUnlock ino c = Some (UnlockHandler ino c)"
| "central_handle kGetInodeIdGroup ino c = None"

text \<open>A sequence of requests, with the replies.\<close>

fun central_run :: "(CentralErpcType \<times> 64 word) list \<Rightarrow> Central \<Rightarrow> (byte list \<times> Central) option" where
  "central_run [] c = Some ([], c)"
| "central_run ((r, ino) # rs) c = do {
     (b, c) \<leftarrow> central_handle r ino c;
     (bs, c) \<leftarrow> central_run rs c;
     Some (b # bs, c) }"

section \<open>Mutual exclusion\<close>

lemma central_run_Cons:
  "central_run (e # es) c = Some (bs, c') \<longleftrightarrow>
     (\<exists>b c1 bs1. central_handle (fst e) (snd e) c = Some (b, c1) \<and> central_run es c1 = Some (bs1, c') \<and> bs = b # bs1)"
  by (cases e) (auto split: bind_splits)

lemma central_run_length: "central_run es c = Some (bs, c') \<Longrightarrow> length bs = length es"
  by (induction es arbitrary: c bs) (auto simp: central_run_Cons)

lemma central_run_append:
  "central_run (es @ fs) c = do {
     (b1, c) \<leftarrow> central_run es c; (b2, c) \<leftarrow> central_run fs c; Some (b1 @ b2, c) }"
proof (induction es arbitrary: c)
  case (Cons e es)
  obtain r ino where e: "e = (r, ino)" by (cases e)
  show ?case
    by (cases "central_handle r ino c"; simp add: e Cons.IH split: prod.split)
      (auto split: bind_splits)
qed (simp split: option.split)

text \<open>A lock that is held stays held until it is given back, and nobody else gets it.\<close>

lemma held_until_unlock:
  assumes "central_run es c = Some (bs, c')" "ino \<in> ct_lock_set c" "(kUnlock, ino) \<notin> set es"
  shows "ino \<in> ct_lock_set c' \<and> (\<forall>j < length es. es ! j = (kLock, ino) \<longrightarrow> bs ! j = 1)"
  using assms
proof (induction es arbitrary: c bs)
  case (Cons e es)
  from Cons.prems(1) obtain b c1 bs1 where
    h: "central_handle (fst e) (snd e) c = Some (b, c1)" and r: "central_run es c1 = Some (bs1, c')"
    and bs: "bs = b # bs1" by (auto simp: central_run_Cons)
  have "ino \<in> ct_lock_set c1 \<and> (e = (kLock, ino) \<longrightarrow> b = 1)"
  proof (cases e)
    case (Pair k i)
    then show ?thesis using h Cons.prems(2,3)
      by (cases k) (auto simp: LockHandler_def UnlockHandler_def split: if_splits)
  qed
  with Cons.IH [OF r] Cons.prems(3) bs show ?case by (auto simp: nth_Cons split: nat.split)
qed simp

section \<open>Groups of inode numbers\<close>

text \<open>As long as the counter does not run around.\<close>

definition group_alloc :: "Central \<Rightarrow> (64 word \<times> Central) option" where
  "group_alloc c = (if ct_inode_id_group_seq c = - 1 then None else Some (GetInodeIdGroupHandler c))"

definition group_taken :: "64 word \<Rightarrow> Central \<Rightarrow> 64 word set" where
  "group_taken start c = {start..<ct_inode_id_group_seq c}"

definition group_inv :: "64 word \<Rightarrow> Central \<Rightarrow> bool" where
  "group_inv start c \<longleftrightarrow> start \<le> ct_inode_id_group_seq c"

interpretation grp: fresh_allocator group_alloc "group_taken start" "group_inv start" for start
proof
  fix c b c' assume inv: "group_inv start c" and a: "group_alloc c = Some (b, c')"
  let ?s = "ct_inode_id_group_seq c"
  have m: "?s \<noteq> - 1" using a by (simp add: group_alloc_def split: if_splits)
  then have "GetInodeIdGroupHandler c = (b, c')" using a by (simp add: group_alloc_def)
  then have b: "b = ?s" and s: "ct_inode_id_group_seq c' = ?s + 1"
    by (simp_all add: GetInodeIdGroupHandler_def flip: prod.inject, auto)
  show "b \<notin> group_taken start c" by (simp add: group_taken_def b)
  have n: "unat (?s + 1) = Suc (unat ?s)" using m by (rule unat_succ)
  have "x < ?s + 1 \<longleftrightarrow> x < ?s \<or> x = ?s" for x
    unfolding word_less_nat_alt n less_Suc_eq by (simp only: unsigned_word_eqI [symmetric] word_unat_eq_iff)
  moreover have "start \<le> ?s" using inv by (simp only: group_inv_def)
  ultimately show "group_taken start c' = insert b (group_taken start c)"
    unfolding group_taken_def b s by (intro set_eqI) (simp only: atLeastLessThan_iff insert_iff, blast)
  show "group_inv start c'"
    using inv n unfolding group_inv_def s word_le_nat_alt by linarith
qed

section \<open>Claims\<close>

text \<open>
  C23. The lock service excludes: between two grants of the same lock it has
  been given back, whatever requests come in between.
\<close>

theorem lock_exclusive:
  assumes run: "central_run es c = Some (bs, c')" and ij: "i < j" "j < length es"
    and ei: "es ! i = (kLock, ino)" "bs ! i = 0" and ej: "es ! j = (kLock, ino)" "bs ! j = 0"
  shows "\<exists>k. i < k \<and> k < j \<and> es ! k = (kUnlock, ino)"
proof (rule ccontr)
  assume no: "\<nexists>k. i < k \<and> k < j \<and> es ! k = (kUnlock, ino)"
  let ?mid = "drop (Suc i) (take (Suc j) es)"
  have es: "es = take i es @ (kLock, ino) # drop (Suc i) es" using ij ei(1) by (metis id_take_nth_drop order.strict_trans)
  then have "central_run (take i es @ (kLock, ino) # drop (Suc i) es) c = Some (bs, c')" using run by simp
  then obtain b1 c1 b c2 b3 where 1: "central_run (take i es) c = Some (b1, c1)"
    "central_handle kLock ino c1 = Some (b, c2)" "central_run (drop (Suc i) es) c2 = Some (b3, c')" "bs = b1 @ b # b3"
    unfolding central_run_append by (auto simp: central_run_Cons simp del: central_run.simps split: bind_splits)
  have l: "length b1 = i" "length b3 = length es - Suc i"
    using central_run_length [OF 1(1)] central_run_length [OF 1(3)] ij by simp_all
  then have "b = 0" using ei(2) 1(4) by (simp add: nth_append)
  then have held: "ino \<in> ct_lock_set c2" using 1(2) by (auto simp: LockHandler_def split: if_splits)
  let ?m = "j - Suc i"
  have "central_run (take (Suc ?m) (drop (Suc i) es) @ drop (Suc ?m) (drop (Suc i) es)) c2 = Some (b3, c')"
    using 1(3) by (simp only: append_take_drop_id)
  then obtain b4 c3 b5 where 2: "central_run (take (Suc ?m) (drop (Suc i) es)) c2 = Some (b4, c3)" "b3 = b4 @ b5"
    unfolding central_run_append by (auto split: bind_splits)
  have "(kUnlock, ino) \<notin> set (take (Suc ?m) (drop (Suc i) es))"
  proof
    assume "(kUnlock, ino) \<in> set (take (Suc ?m) (drop (Suc i) es))"
    then obtain k where k: "k < Suc ?m" "k < length es - Suc i" "drop (Suc i) es ! k = (kUnlock, ino)"
      by (auto simp: in_set_conv_nth)
    then have u: "es ! (Suc i + k) = (kUnlock, ino)" using ij by simp
    have "Suc i + k \<noteq> j" using u ej(1) by auto
    then have "i < Suc i + k" "Suc i + k < j" using k(1) ij by simp_all
    then show False using no u by blast
  qed
  from held_until_unlock [OF 2(1) held this] have "b4 ! ?m = 1"
    using ij ej(1) by (auto simp: nth_take)
  moreover have "length b4 = Suc ?m" using central_run_length [OF 2(1)] ij by simp
  ultimately have "bs ! j = 1" using 1(4) 2(2) l ij by (simp add: nth_append)
  then show False using ej(2) by simp
qed

theorem lock_exclusive_witness:
  "\<exists>bs c'. central_run [(kLock, 5), (kUnlock, 5), (kLock, 5)] (Central_new 0) = Some (bs, c') \<and>
     (\<exists>k. 0 < k \<and> k < 2 \<and> [(kLock, 5), (kUnlock, 5), (kLock, 5)] ! k = (kUnlock, 5 :: 64 word))"
proof -
  let ?es = "[(kLock, 5), (kUnlock, 5), (kLock, 5 :: 64 word)]"
  obtain c' where r: "central_run ?es (Central_new 0) = Some ([0, 0, 0], c')"
    by (simp add: LockHandler_def UnlockHandler_def Central_new_def)
  from lock_exclusive [OF r, of 0 2 5] r show ?thesis by (auto simp: nth_Cons')
qed

text \<open>
  C24. The group counter never hands out the same group of inode numbers
  twice before it runs around.
\<close>

theorem groups_distinct:
  assumes "alloc_many group_alloc n c = Some (gs, c')"
  shows "distinct gs"
  using grp.alloc_many_distinct [of "ct_inode_id_group_seq c" c n gs c'] assms by (simp add: group_inv_def)

theorem groups_distinct_witness:
  "\<exists>gs c'. alloc_many group_alloc (Suc (Suc 0)) (Central_new 0) = Some (gs, c') \<and> distinct gs"
proof -
  obtain gs c' where "alloc_many group_alloc (Suc (Suc 0)) (Central_new 0) = Some (gs, c')"
    by (simp add: group_alloc_def GetInodeIdGroupHandler_def Central_new_def)
  with groups_distinct [OF this] show ?thesis by blast
qed

end
