(* ===== verification/Engine.thy ===== *)
theory Engine
  imports Central
begin

text \<open>
  The file system operations of \<open>src/fs/engine/engine.cc\<close> over a key-value store. An
  inode is stored under its number, a directory entry under the number of the
  directory, a slash and the name. The four requests the engine sends to its
  key-value client are fields of \<open>fs_env\<close>; theory \<open>FuseeStore\<close> gives them the meaning
  they have in the program. An operation returns 0 or a negated \<open>errno\<close>; \<^const>\<open>None\<close> is
  a client call that does not return.
\<close>

section \<open>Keys\<close>

fun show_nat :: "nat \<Rightarrow> string" where
  "show_nat n = (if n < 10 then [char_of (48 + n)] else show_nat (n div 10) @ [char_of (48 + n mod 10)])"

declare show_nat.simps [simp del]

definition GetInodeKey :: "64 word \<Rightarrow> string" where
  "GetInodeKey ino = show_nat (unat ino)"

definition GetDentryKey :: "64 word \<Rightarrow> string \<Rightarrow> string" where
  "GetDentryKey pid name = show_nat (unat pid) @ slash # name"

section \<open>State\<close>

text \<open>
  \<open>kvs_read key n\<close> is a search followed by reading \<open>n\<close> bytes of the value found;
  \<open>fs_rpc_group\<close> is the answer of the central server; \<open>fs_uninit_children\<close> is what a
  local \<open>Inode\<close> variable holds in a field that is never assigned.
\<close>

record 's fs_env =
  kvs_read :: "string \<Rightarrow> nat \<Rightarrow> 's \<Rightarrow> (byte list option \<times> 's) option"
  kvs_insert :: "string \<Rightarrow> byte list \<Rightarrow> 's \<Rightarrow> (32 word \<times> 's) option"
  kvs_update :: "string \<Rightarrow> byte list \<Rightarrow> 's \<Rightarrow> (32 word \<times> 's) option"
  kvs_delete :: "string \<Rightarrow> 's \<Rightarrow> (32 word \<times> 's) option"
  fs_time :: "'s \<Rightarrow> 64 word"
  fs_rpc_group :: "'s \<Rightarrow> (64 word \<times> 's) option"
  fs_uninit_children :: "64 word"

record 's Engine =
  eng_inode_id_group :: "64 word"
  eng_inode_id_seq_in_group :: "64 word"
  eng_kv :: 's

definition Engine_new :: "'s \<Rightarrow> 's Engine" where
  "Engine_new kv = \<lparr>eng_inode_id_group = 0, eng_inode_id_seq_in_group = 0, eng_kv = kv\<rparr>"

definition ENOENT :: int where "ENOENT = 2"
definition EIO :: int where "EIO = 5"
definition EACCES :: int where "EACCES = 13"
definition EEXIST :: int where "EEXIST = 17"
definition ENOTDIR :: int where "ENOTDIR = 20"
definition EISDIR :: int where "EISDIR = 21"
definition ENOTEMPTY :: int where "ENOTEMPTY = 39"

lemmas errno_defs = ENOENT_def EIO_def EACCES_def EEXIST_def ENOTDIR_def EISDIR_def ENOTEMPTY_def

section \<open>Requests to the key-value client\<close>

definition GetInodeById :: "'s fs_env \<Rightarrow> 64 word \<Rightarrow> 's Engine \<Rightarrow> ((int + Inode) \<times> 's Engine) option" where
  "GetInodeById fe ino e = do {
     (r, s) \<leftarrow> kvs_read fe (GetInodeKey ino) Inode_size (eng_kv e);
     Some (case r of None \<Rightarrow> Inl (- ENOENT) | Some bs \<Rightarrow> Inr (Inode_of_bytes bs), e\<lparr>eng_kv := s\<rparr>) }"

definition GetDentryByParentIdAndName ::
    "'s fs_env \<Rightarrow> 64 word \<Rightarrow> string \<Rightarrow> 's Engine \<Rightarrow> ((int + 64 word) \<times> 's Engine) option" where
  "GetDentryByParentIdAndName fe pid name e = do {
     (r, s) \<leftarrow> kvs_read fe (GetDentryKey pid name) 8 (eng_kv e);
     Some (case r of None \<Rightarrow> Inl (- ENOENT) | Some bs \<Rightarrow> Inr (of_le_bytes bs), e\<lparr>eng_kv := s\<rparr>) }"

text \<open>A return code other than \<open>KV_OPS_FAIL_RETURN\<close> counts as success.\<close>

definition kv_ret :: "'s Engine \<Rightarrow> 32 word \<times> 's \<Rightarrow> int \<times> 's Engine" where
  "kv_ret e r = (if fst r = 1 then - EIO else 0, e\<lparr>eng_kv := snd r\<rparr>)"

definition InsertDentry :: "'s fs_env \<Rightarrow> 64 word \<Rightarrow> string \<Rightarrow> 64 word \<Rightarrow> 's Engine \<Rightarrow> (int \<times> 's Engine) option" where
  "InsertDentry fe pid name ino e =
     map_option (kv_ret e) (kvs_insert fe (GetDentryKey pid name) (le_bytes 8 ino) (eng_kv e))"

definition DeleteDentry :: "'s fs_env \<Rightarrow> 64 word \<Rightarrow> string \<Rightarrow> 's Engine \<Rightarrow> (int \<times> 's Engine) option" where
  "DeleteDentry fe pid name e = map_option (kv_ret e) (kvs_delete fe (GetDentryKey pid name) (eng_kv e))"

definition UpdateDentry :: "'s fs_env \<Rightarrow> 64 word \<Rightarrow> string \<Rightarrow> 64 word \<Rightarrow> 's Engine \<Rightarrow> (int \<times> 's Engine) option" where
  "UpdateDentry fe pid name ino e =
     map_option (kv_ret e) (kvs_update fe (GetDentryKey pid name) (le_bytes 8 ino) (eng_kv e))"

definition InsertInode :: "'s fs_env \<Rightarrow> 64 word \<Rightarrow> Inode \<Rightarrow> 's Engine \<Rightarrow> (int \<times> 's Engine) option" where
  "InsertInode fe ino i e = map_option (kv_ret e) (kvs_insert fe (GetInodeKey ino) (Inode_bytes i) (eng_kv e))"

definition DeleteInode :: "'s fs_env \<Rightarrow> 64 word \<Rightarrow> 's Engine \<Rightarrow> (int \<times> 's Engine) option" where
  "DeleteInode fe ino e = map_option (kv_ret e) (kvs_delete fe (GetInodeKey ino) (eng_kv e))"

definition UpdateInode :: "'s fs_env \<Rightarrow> 64 word \<Rightarrow> Inode \<Rightarrow> 's Engine \<Rightarrow> (int \<times> 's Engine) option" where
  "UpdateInode fe ino i e = map_option (kv_ret e) (kvs_update fe (GetInodeKey ino) (Inode_bytes i) (eng_kv e))"

text \<open>The bodies of the two lock operations are commented out in the source.\<close>

definition CentralLockInode :: "64 word \<Rightarrow> 's Engine \<Rightarrow> 's Engine" where
  "CentralLockInode ino e = e"

definition CentralUnlockInode :: "64 word \<Rightarrow> 's Engine \<Rightarrow> 's Engine" where
  "CentralUnlockInode ino e = e"

section \<open>Inode numbers\<close>

definition seq_fetch_add :: "'s Engine \<Rightarrow> 64 word \<times> 's Engine" where
  "seq_fetch_add e = (eng_inode_id_seq_in_group e,
     e\<lparr>eng_inode_id_seq_in_group := eng_inode_id_seq_in_group e + 1\<rparr>)"

partial_function (option) new_inode_seq ::
    "'s fs_env \<Rightarrow> 64 word \<Rightarrow> 's Engine \<Rightarrow> (64 word \<times> 's Engine) option" where
  [code]: "new_inode_seq fe new_seq e =
     (if new_seq < kInodeIdGroupSize then Some (new_seq, e)
      else case seq_fetch_add e of (new_seq, e) \<Rightarrow>
        if kInodeIdGroupSize \<le> new_seq then Some (new_seq, e)
        else do {
          (g, s) \<leftarrow> fs_rpc_group fe (eng_kv e);
          let e = e\<lparr>eng_kv := s, eng_inode_id_group := g, eng_inode_id_seq_in_group := 0\<rparr>;
          (case seq_fetch_add e of (new_seq, e) \<Rightarrow> new_inode_seq fe new_seq e) })"

definition GetNewInodeId :: "'s fs_env \<Rightarrow> 's Engine \<Rightarrow> (64 word \<times> 's Engine) option" where
  "GetNewInodeId fe e = (case seq_fetch_add e of (new_seq, e) \<Rightarrow> do {
     (new_seq, e) \<leftarrow> new_inode_seq fe new_seq e;
     Some (eng_inode_id_group e * kInodeIdGroupSize + new_seq, e) })"

section \<open>Path lookup\<close>

fun lookup_components ::
    "'s fs_env \<Rightarrow> 32 word \<Rightarrow> 32 word \<Rightarrow> string list \<Rightarrow> 64 word \<Rightarrow> 's Engine
      \<Rightarrow> ((int + 64 word) \<times> 's Engine) option" where
  "lookup_components fe uid gid [] parent e = Some (Inr parent, e)"
| "lookup_components fe uid gid (name # names) parent e = do {
     (r, e) \<leftarrow> GetDentryByParentIdAndName fe parent name e;
     case r of
       Inl err \<Rightarrow> Some (Inl err, e)
     | Inr cur \<Rightarrow>
         if names = [] then Some (Inr cur, e)
         else do {
           (r, e) \<leftarrow> GetInodeById fe cur e;
           case r of
             Inl err \<Rightarrow> Some (Inl err, e)
           | Inr inode \<Rightarrow>
               if \<not> CheckReadPermission inode uid gid then Some (Inl (- EACCES), e)
               else if \<not> IsDir (ino_mode inode) then Some (Inl (- ENOTDIR), e)
               else lookup_components fe uid gid names cur e } }"

definition PathLookupToDentry ::
    "'s fs_env \<Rightarrow> string \<Rightarrow> 32 word \<Rightarrow> 32 word \<Rightarrow> 's Engine \<Rightarrow> ((int + 64 word) \<times> 's Engine) option" where
  "PathLookupToDentry fe path uid gid e =
     (let components = SplitPath (FormatPath path) in
      if components = [] then Some (Inr kRootInodeId, e)
      else do {
        (r, e) \<leftarrow> GetInodeById fe kRootInodeId e;
        case r of
          Inl err \<Rightarrow> Some (Inl err, e)
        | Inr inode \<Rightarrow>
            if \<not> CheckReadPermission inode uid gid then Some (Inl (- EACCES), e)
            else lookup_components fe uid gid components kRootInodeId e })"

section \<open>Operations\<close>

text \<open>
  The four operations that change a directory begin alike: find the parent, read its
  inode, check that it is a directory the caller may write. \<open>Inl\<close> is the error
  returned at once.
\<close>

definition get_parent ::
    "'s fs_env \<Rightarrow> string \<Rightarrow> 32 word \<Rightarrow> 32 word \<Rightarrow> 's Engine \<Rightarrow> ((int + 64 word \<times> Inode) \<times> 's Engine) option" where
  "get_parent fe parent_path uid gid e = do {
     (r, e) \<leftarrow> PathLookupToDentry fe parent_path uid gid e;
     case r of
       Inl err \<Rightarrow> Some (Inl err, e)
     | Inr pid \<Rightarrow> do {
         let e = CentralLockInode pid e;
         (r, e) \<leftarrow> GetInodeById fe pid e;
         case r of
           Inl err \<Rightarrow> Some (Inl err, CentralUnlockInode pid e)
         | Inr parent \<Rightarrow>
             if \<not> IsDir (ino_mode parent) then Some (Inl (- ENOTDIR), CentralUnlockInode pid e)
             else if \<not> CheckWritePermission parent uid gid then Some (Inl (- EACCES), CentralUnlockInode pid e)
             else Some (Inr (pid, parent), e) } }"

text \<open>Undo steps: their results are ignored.\<close>

definition ignore_ret :: "(int \<times> 's Engine) option \<Rightarrow> 's Engine option" where
  "ignore_ret r = map_option snd r"

text \<open>
  The rest of \<open>Mkdir\<close> and \<open>Creat\<close>, which differ in the type bits of the mode and in
  whether \<open>children\<close> is assigned.
\<close>

definition make_node ::
    "'s fs_env \<Rightarrow> 64 word \<Rightarrow> Inode \<Rightarrow> string \<Rightarrow> (64 word \<Rightarrow> 64 word \<Rightarrow> Inode) \<Rightarrow> 's Engine \<Rightarrow> (int \<times> 's Engine) option" where
  "make_node fe pid parent name mk e = do {
     (r, e) \<leftarrow> GetDentryByParentIdAndName fe pid name e;
     case r of
       Inr _ \<Rightarrow> Some (- EEXIST, CentralUnlockInode pid e)
     | Inl _ \<Rightarrow> do {
         (ino, e) \<leftarrow> GetNewInodeId fe e;
         (ret, e) \<leftarrow> InsertInode fe ino (mk ino (fs_time fe (eng_kv e))) e;
         if ret \<noteq> 0 then Some (ret, CentralUnlockInode pid e)
         else do {
           (ret, e) \<leftarrow> InsertDentry fe pid name ino e;
           if ret \<noteq> 0 then do {
             e \<leftarrow> ignore_ret (DeleteInode fe ino e);
             Some (ret, CentralUnlockInode pid e) }
           else do {
             (ret, e) \<leftarrow> UpdateInode fe pid (parent\<lparr>ino_children := ino_children parent + 1\<rparr>) e;
             if ret \<noteq> 0 then do {
               e \<leftarrow> ignore_ret (DeleteInode fe ino e);
               e \<leftarrow> ignore_ret (DeleteDentry fe pid name e);
               Some (ret, CentralUnlockInode pid e) }
             else Some (0, CentralUnlockInode pid e) } } } }"

definition Mkdir :: "'s fs_env \<Rightarrow> string \<Rightarrow> 32 word \<Rightarrow> 32 word \<Rightarrow> 32 word \<Rightarrow> 's Engine \<Rightarrow> (int \<times> 's Engine) option" where
  "Mkdir fe path uid gid mode e = (case SeparateLastComponent (FormatPath path) of (parent_path, name) \<Rightarrow> do {
     (r, e) \<leftarrow> get_parent fe parent_path uid gid e;
     case r of
       Inl err \<Rightarrow> Some (err, e)
     | Inr (pid, parent) \<Rightarrow> make_node fe pid parent name
         (\<lambda>ino now. \<lparr>ino_id = ino, ino_size = 0, ino_atime = now, ino_mtime = now, ino_ctime = now,
            ino_children = 0, ino_mode = S_IFDIR OR mode, ino_uid = uid, ino_gid = gid\<rparr>) e })"

definition Creat :: "'s fs_env \<Rightarrow> string \<Rightarrow> 32 word \<Rightarrow> 32 word \<Rightarrow> 32 word \<Rightarrow> 's Engine \<Rightarrow> (int \<times> 's Engine) option" where
  "Creat fe path uid gid mode e = (case SeparateLastComponent (FormatPath path) of (parent_path, name) \<Rightarrow> do {
     (r, e) \<leftarrow> get_parent fe parent_path uid gid e;
     case r of
       Inl err \<Rightarrow> Some (err, e)
     | Inr (pid, parent) \<Rightarrow> make_node fe pid parent name
         (\<lambda>ino now. \<lparr>ino_id = ino, ino_size = 0, ino_atime = now, ino_mtime = now, ino_ctime = now,
            ino_children = fs_uninit_children fe, ino_mode = S_IFREG OR mode, ino_uid = uid, ino_gid = gid\<rparr>) e })"

text \<open>
  The rest of \<open>Rmdir\<close> and \<open>Unlink\<close>: \<open>check\<close> is the test of the target's inode that
  differs. An error of the last update is returned by both; \<open>Unlink\<close> falls through to
  its common exit.
\<close>

definition remove_node ::
    "'s fs_env \<Rightarrow> 64 word \<Rightarrow> Inode \<Rightarrow> string \<Rightarrow> (Inode \<Rightarrow> int option) \<Rightarrow> 's Engine \<Rightarrow> (int \<times> 's Engine) option" where
  "remove_node fe pid parent name check e = do {
     (r, e) \<leftarrow> GetDentryByParentIdAndName fe pid name e;
     case r of
       Inl err \<Rightarrow> Some (err, CentralUnlockInode pid e)
     | Inr tid \<Rightarrow> do {
         let e = CentralLockInode tid e;
         let unlock = (\<lambda>e. CentralUnlockInode tid (CentralUnlockInode pid e));
         (r, e) \<leftarrow> GetInodeById fe tid e;
         case r of
           Inl err \<Rightarrow> Some (err, unlock e)
         | Inr target \<Rightarrow>
             (case check target of
                Some err \<Rightarrow> Some (err, unlock e)
              | None \<Rightarrow> do {
                  let parent = parent\<lparr>ino_children := ino_children parent - 1\<rparr>;
                  (ret, e) \<leftarrow> DeleteInode fe tid e;
                  if ret \<noteq> 0 then Some (ret, unlock e)
                  else do {
                    (ret, e) \<leftarrow> DeleteDentry fe pid name e;
                    if ret \<noteq> 0 then do {
                      e \<leftarrow> ignore_ret (InsertInode fe tid target e);
                      Some (ret, unlock e) }
                    else do {
                      (ret, e) \<leftarrow> UpdateInode fe pid parent e;
                      if ret \<noteq> 0 then do {
                        e \<leftarrow> ignore_ret (InsertInode fe tid target e);
                        e \<leftarrow> ignore_ret (InsertDentry fe pid name tid e);
                        Some (ret, unlock e) }
                      else Some (0, unlock e) } } }) } }"

definition rmdir_check :: "Inode \<Rightarrow> int option" where
  "rmdir_check target =
     (if \<not> IsDir (ino_mode target) then Some (- ENOTDIR)
      else if 0 < ino_children target then Some (- ENOTEMPTY) else None)"

definition unlink_check :: "Inode \<Rightarrow> int option" where
  "unlink_check target = (if IsDir (ino_mode target) then Some (- EISDIR) else None)"

definition Rmdir :: "'s fs_env \<Rightarrow> string \<Rightarrow> 32 word \<Rightarrow> 32 word \<Rightarrow> 's Engine \<Rightarrow> (int \<times> 's Engine) option" where
  "Rmdir fe path uid gid e = (case SeparateLastComponent (FormatPath path) of (parent_path, name) \<Rightarrow> do {
     (r, e) \<leftarrow> get_parent fe parent_path uid gid e;
     case r of
       Inl err \<Rightarrow> Some (err, e)
     | Inr (pid, parent) \<Rightarrow> remove_node fe pid parent name rmdir_check e })"

definition Unlink :: "'s fs_env \<Rightarrow> string \<Rightarrow> 32 word \<Rightarrow> 32 word \<Rightarrow> 's Engine \<Rightarrow> (int \<times> 's Engine) option" where
  "Unlink fe path uid gid e = (case SeparateLastComponent (FormatPath path) of (parent_path, name) \<Rightarrow> do {
     (r, e) \<leftarrow> get_parent fe parent_path uid gid e;
     case r of
       Inl err \<Rightarrow> Some (err, e)
     | Inr (pid, parent) \<Rightarrow> remove_node fe pid parent name unlink_check e })"

definition Stat :: "'s fs_env \<Rightarrow> string \<Rightarrow> 32 word \<Rightarrow> 32 word \<Rightarrow> 's Engine \<Rightarrow> ((int + Inode) \<times> 's Engine) option" where
  "Stat fe path uid gid e = do {
     (r, e) \<leftarrow> PathLookupToDentry fe path uid gid e;
     case r of Inl err \<Rightarrow> Some (Inl err, e) | Inr ino \<Rightarrow> GetInodeById fe ino e }"

text \<open>The first thread creates the root directory; \<open>children\<close> of its inode is not assigned.\<close>

definition create_root :: "'s fs_env \<Rightarrow> 's Engine \<Rightarrow> (int \<times> 's Engine) option" where
  "create_root fe e = do {
     let now = fs_time fe (eng_kv e);
     (ret, e) \<leftarrow> InsertInode fe kRootInodeId
       \<lparr>ino_id = kRootInodeId, ino_size = 0, ino_atime = now, ino_mtime = now, ino_ctime = now,
        ino_children = fs_uninit_children fe, ino_mode = S_IFDIR OR 0x1ED, ino_uid = 0, ino_gid = 0\<rparr> e;
     Some (ret, e\<lparr>eng_inode_id_seq_in_group := 1\<rparr>) }"

section \<open>Properties\<close>

subsection \<open>Keys do not collide\<close>

definition dec_val :: "string \<Rightarrow> nat" where
  "dec_val s = foldl (\<lambda>a c. a * 10 + (of_char c - 48)) 0 s"

lemma of_char_digit: "d < 10 \<Longrightarrow> of_char (char_of (48 + d) :: char) = (48 + d :: nat)"
  by simp

lemma dec_val_show: "dec_val (show_nat n) = n"
proof (induction n rule: show_nat.induct)
  case (1 n)
  show ?case
  proof (cases "n < 10")
    case True
    then show ?thesis by (subst show_nat.simps) (simp add: dec_val_def of_char_digit)
  next
    case False
    have "dec_val (show_nat n) = dec_val (show_nat (n div 10)) * 10 + n mod 10"
      using False by (subst show_nat.simps) (simp add: dec_val_def of_char_digit)
    then show ?thesis using 1 False by simp
  qed
qed

lemma show_nat_inj: "show_nat m = show_nat n \<longleftrightarrow> m = n"
  by (metis dec_val_show)

lemma digit_not_slash: "(d :: nat) < 10 \<Longrightarrow> char_of (48 + d) \<noteq> slash"
proof
  assume "d < 10" "char_of (48 + d) = slash"
  then have "48 + d = (of_char slash :: nat)" using of_char_digit [of d] by simp
  then show False by (simp add: of_char_def)
qed

lemma show_nat_no_slash: "slash \<notin> set (show_nat n)"
proof (induction n rule: show_nat.induct)
  case (1 n)
  then show ?case
    by (subst show_nat.simps) (auto dest: digit_not_slash [OF mod_less_divisor] simp: digit_not_slash [symmetric])
qed

lemma GetInodeKey_inj: "GetInodeKey i = GetInodeKey j \<longleftrightarrow> i = j"
  by (simp add: GetInodeKey_def show_nat_inj word_unat_eq_iff)

lemma GetDentryKey_inj: "GetDentryKey p n = GetDentryKey q m \<longleftrightarrow> p = q \<and> n = m"
proof -
  have "a @ slash # n = b @ slash # m \<longleftrightarrow> a = b \<and> n = m" if "slash \<notin> set a" "slash \<notin> set b" for a b
    using that by (induction a arbitrary: b) (case_tac b; auto)+
  then show ?thesis
    by (simp add: GetDentryKey_def show_nat_no_slash show_nat_inj word_unat_eq_iff)
qed

lemma GetInodeKey_neq_GetDentryKey: "GetInodeKey i \<noteq> GetDentryKey p n"
proof
  assume "GetInodeKey i = GetDentryKey p n"
  then have "slash \<in> set (GetInodeKey i)" by (simp add: GetDentryKey_def)
  then show False using show_nat_no_slash by (simp add: GetInodeKey_def)
qed

lemmas fs_keys [simp] = GetInodeKey_inj GetDentryKey_inj GetInodeKey_neq_GetDentryKey
  GetInodeKey_neq_GetDentryKey [symmetric]

subsection \<open>Inode numbers\<close>

text \<open>
  The central server is asked only when the second \<open>fetch_add\<close> falls below the limit
  the first one has reached, which takes a counter that has run around.
\<close>

lemma GetNewInodeId_in_group:
  assumes "eng_inode_id_seq_in_group e < kInodeIdGroupSize"
  shows "GetNewInodeId fe e = Some (eng_inode_id_group e * kInodeIdGroupSize + eng_inode_id_seq_in_group e,
     e\<lparr>eng_inode_id_seq_in_group := eng_inode_id_seq_in_group e + 1\<rparr>)"
  using assms by (simp add: GetNewInodeId_def seq_fetch_add_def new_inode_seq.simps)

lemma GetNewInodeId_past_group:
  assumes "kInodeIdGroupSize \<le> eng_inode_id_seq_in_group e" "eng_inode_id_seq_in_group e \<noteq> - 1"
  shows "GetNewInodeId fe e = Some (eng_inode_id_group e * kInodeIdGroupSize + (eng_inode_id_seq_in_group e + 1),
     e\<lparr>eng_inode_id_seq_in_group := eng_inode_id_seq_in_group e + 2\<rparr>)"
proof -
  let ?s = "eng_inode_id_seq_in_group e"
  have "kInodeIdGroupSize \<le> ?s + 1"
    using assms unat_succ [of ?s] by (simp add: word_le_nat_alt)
  then show ?thesis
    using assms(1) by (simp add: GetNewInodeId_def seq_fetch_add_def new_inode_seq.simps linorder_not_less)
qed

definition inode_alloc :: "'s fs_env \<Rightarrow> 's Engine \<Rightarrow> (64 word \<times> 's Engine) option" where
  "inode_alloc fe e = (if eng_inode_id_seq_in_group e < kInodeIdGroupSize then GetNewInodeId fe e else None)"

definition inode_taken :: "64 word \<Rightarrow> 's Engine \<Rightarrow> 64 word set" where
  "inode_taken g e = (\<lambda>i. g * kInodeIdGroupSize + i) ` {..<eng_inode_id_seq_in_group e}"

interpretation inodes: fresh_allocator "inode_alloc fe" "inode_taken g" "\<lambda>e. eng_inode_id_group e = g" for fe g
proof
  fix e :: "'a Engine" and b e'
  assume g: "eng_inode_id_group e = g" and a: "inode_alloc fe e = Some (b, e')"
  let ?s = "eng_inode_id_seq_in_group e"
  have lt: "?s < kInodeIdGroupSize" using a by (simp add: inode_alloc_def split: if_splits)
  then have "Some (b, e') = Some (g * kInodeIdGroupSize + ?s, e\<lparr>eng_inode_id_seq_in_group := ?s + 1\<rparr>)"
    using a g by (simp add: inode_alloc_def GetNewInodeId_in_group)
  then have b: "b = g * kInodeIdGroupSize + ?s" and e': "e' = e\<lparr>eng_inode_id_seq_in_group := ?s + 1\<rparr>" by simp_all
  have "?s \<noteq> - 1" using lt by (auto simp: kInodeIdGroupSize_def)
  then have "x < ?s + 1 \<longleftrightarrow> x < ?s \<or> x = ?s" for x
    unfolding word_less_nat_alt unat_succ [OF \<open>?s \<noteq> - 1\<close>] less_Suc_eq by (simp only: word_unat_eq_iff)
  then have "{..<?s + 1} = insert ?s {..<?s}" by auto
  then show "inode_taken g e' = insert b (inode_taken g e)" by (simp add: inode_taken_def b e')
  show "b \<notin> inode_taken g e" by (auto simp: inode_taken_def b)
  show "eng_inode_id_group e' = g" by (simp add: e' g)
qed

section \<open>Claims\<close>

text \<open>
  C25. No two objects of the file system share a key of the store: inodes
  with different numbers, directory entries that differ in parent or name, and an inode
  and a directory entry always have different keys.
\<close>

theorem fs_keys_distinct:
  "(GetInodeKey i = GetInodeKey j \<longleftrightarrow> i = j) \<and>
   (GetDentryKey p n = GetDentryKey q m \<longleftrightarrow> p = q \<and> n = m) \<and> GetInodeKey i \<noteq> GetDentryKey p n"
  by simp

text \<open>A store that is a map in local memory.\<close>

definition map_env :: "(string \<rightharpoonup> byte list) fs_env" where
  "map_env = \<lparr>kvs_read = (\<lambda>k n s. Some (s k, s)), kvs_insert = (\<lambda>k v s. Some (0, s(k \<mapsto> v))),
     kvs_update = (\<lambda>k v s. Some (if s k = None then (1, s) else (0, s(k \<mapsto> v)))),
     kvs_delete = (\<lambda>k s. Some (0, s(k := None))), fs_time = (\<lambda>_. 0), fs_rpc_group = (\<lambda>s. Some (7, s)),
     fs_uninit_children = 0\<rparr>"



text \<open>
  C27. The engine never asks the central server for another group of
  inode numbers, as the test that should protect the request is the wrong way round: once
  its group is used up it goes on into the numbers of the next group.
\<close>

theorem group_never_changes:
  assumes "eng_inode_id_seq_in_group e \<noteq> - 1"
  shows "\<exists>ino e'. GetNewInodeId fe e = Some (ino, e') \<and> eng_inode_id_group e' = eng_inode_id_group e \<and>
    (kInodeIdGroupSize \<le> eng_inode_id_seq_in_group e \<longrightarrow>
       ino = eng_inode_id_group e * kInodeIdGroupSize + (eng_inode_id_seq_in_group e + 1))"
proof (cases "eng_inode_id_seq_in_group e < kInodeIdGroupSize")
  case True
  then show ?thesis by (simp add: GetNewInodeId_in_group)
next
  case False
  then show ?thesis using assms by (simp add: GetNewInodeId_past_group not_less)
qed

theorem group_never_changes_witness:
  "\<exists>e'. GetNewInodeId map_env \<lparr>eng_inode_id_group = 3, eng_inode_id_seq_in_group = kInodeIdGroupSize, eng_kv = Map.empty\<rparr> =
     Some (3 * kInodeIdGroupSize + (kInodeIdGroupSize + 1), e') \<and> eng_inode_id_group e' = 3"
  using group_never_changes [of "\<lparr>eng_inode_id_group = 3, eng_inode_id_seq_in_group = kInodeIdGroupSize, eng_kv = Map.empty\<rparr>" map_env]
  by (auto simp: kInodeIdGroupSize_def)

end
