(* ===== verification/Spec2Isabelle.thy ===== *)
theory Spec2Isabelle
  imports Server ClientOps Engine
begin

text \<open>
  FUSEE-FS is a file system whose metadata lives in a replicated key-value store on
  disaggregated memory. Memory nodes (\<open>src/src/server.cc\<close>, \<open>server_mm.cc\<close>) hand out blocks
  of their memory and otherwise stay passive: clients (\<open>src/src/client.cc\<close>,
  \<open>client_mm.cc\<close>) read, write and compare-and-swap that memory with one-sided RDMA verbs
  (\<open>nm.cc\<close>, \<open>ib.cc\<close>). A key is found through a RACE hash index (\<open>hashtable.cc\<close>), whose slots
  are replicated; concurrent writers of a slot agree on one value through the swaps
  themselves. On top, an engine (\<open>src/fs/engine\<close>) stores inodes and directory entries as
  pairs, and a central server (\<open>src/fs/central\<close>) offers locks and groups of inode numbers.

  \<^bold>\<open>How the code is modelled.\<close> Memory is a function from 64-bit addresses to bytes, and
  every struct the program overlays on memory has its byte layout. Structs and classes
  are records with the fields of the source, enumerations are datatypes, integers keep
  their width. An operation returns an option: \<^const>\<open>None\<close> stands for an exit, a failed
  assertion, an access outside an array or through a null pointer, a division by zero,
  or a loop that does not end. What the program calls and does not contain (the verbs
  library, UDP, the RPC library, the clock, the steps of other threads, the contents of
  uninitialised variables) is an argument: the fields of \<open>env\<close> in theory \<open>Nm\<close> and of \<open>fs_env\<close>
  in theory \<open>Engine\<close>. What is assumed of the verbs is the predicate \<open>rc_verbs\<close>; the
  environment \<open>direct_env\<close>, which carries requests out at once, satisfies it.

  \<^bold>\<open>Theories.\<close>
  \<^item> \<open>Prelude\<close>: lists, options, words and memory.
  \<^item> \<open>KvUtils\<close> (\<open>kv_utils.cc\<close>, \<open>kv_utils.h\<close>): control messages and log records. Messages and
    garbage collection records survive encoding; rounding has its bounds.
  \<^item> \<open>Hashtable\<close> (\<open>hashtable.cc\<close>, \<open>hashtable.h\<close>): the hash depends on the key alone, the two
    candidate buckets exist and differ, key comparison is equality of byte strings,
    slots and 64-bit words correspond.
  \<^item> \<open>BlockPool\<close>: the contract of an allocator that never gives out a block twice, with
    its consequences; interpreted for the blocks and the subtables of a memory node, for
    the inode numbers of an engine and for the groups of the central server.
  \<^item> \<open>ServerMM\<close>, \<open>Server\<close> (\<open>server_mm.cc\<close>, \<open>server.cc\<close>): the placement of blocks on the nodes, the
    allocator and the request loop. Over any sequence of requests no block is given out
    twice.
  \<^item> \<open>Ib\<close>, \<open>Nm\<close> (\<open>ib.cc\<close>, \<open>nm.cc\<close>): identifiers, merging, posting and polling. Under
    \<open>rc_verbs\<close> a synchronous post returns with exactly its requests carried out.
  \<^item> \<open>ClientMM\<close> (\<open>client_mm.cc\<close>): the client's allocator. Client and memory nodes agree on
    where the replicas of a block are; undoing an allocation restores the queue.
  \<^item> \<open>Client\<close>, \<open>Consensus\<close>, \<open>ClientOps\<close> (\<open>client.h\<close>, \<open>client.cc\<close>): the requests of each phase
    and the scans; the decision procedure for a slot and the race of any number of
    writers as a step relation, one step per verb; the synchronous operations. At most
    one writer wins, its value reaches all replicas, and some writer wins.
  \<^item> \<open>FsCommon\<close>, \<open>Central\<close>, \<open>Engine\<close> (\<open>src/fs\<close>): paths, inodes, locks, and the file system
    operations over a store.

  \<^bold>\<open>Loops.\<close> The waits for completions and for other writers and the traversal of the
  log are partial functions into option, so that not ending is \<^const>\<open>None\<close>; every other
  loop has a termination proof. No fuel is used.

  \<^bold>\<open>Not modelled.\<close> The asynchronous variants of the client's phases, crash handling and
  recovery of the index, the client's start-up, the second client class \<open>client_cr.cc\<close>,
  configuration files, threads, and the tests.
\<close>

section \<open>Control messages\<close>

text \<open>
  C31. A control message survives the wire: whatever \<open>serialize_kvmsg\<close> produces,
  \<open>deserialize_kvmsg\<close> turns back into the original message.
\<close>

theorem kvmsg_round_trip:
  assumes "serialize_kvmsg m = Some m'"
  shows "deserialize_kvmsg m' = Some m"
  using assms by (rule deserialize_serialize_kvmsg)

theorem kvmsg_round_trip_witness:
  "\<exists>m'. serialize_kvmsg \<lparr>msg_type = KVMsgType_code REQ_ALLOC, msg_id = 7,
       msg_body = BodyMr \<lparr>mr_addr = 0x1000, mr_rkey = 3\<rparr>\<rparr> = Some m' \<and>
     deserialize_kvmsg m' = Some \<lparr>msg_type = KVMsgType_code REQ_ALLOC, msg_id = 7,
       msg_body = BodyMr \<lparr>mr_addr = 0x1000, mr_rkey = 3\<rparr>\<rparr>"
  using serialize_mr_reply [OF mr_types(1), of 7 "\<lparr>mr_addr = 0x1000, mr_rkey = 3\<rparr>"]
    kvmsg_round_trip by blast

end
